theory Spec2Isabelle
  imports Main "HOL-Library.Char_ord" "HOL-Library.List_Lexorder"
begin

section \<open>Certificate chain validation of gpgsm (sm/certchain.c)\<close>

text \<open>
  A shallow embedding of \<^verbatim>\<open>sm/certchain.c\<close>. Each C function becomes a HOL
  function of the same name. What the C code keeps in variables and in the objects it
  points to is passed explicitly: the options and the external responders are the fields
  of an environment record, the key database, the user data attached to certificate
  objects and the process-wide statics are the fields of a world record.

  Logging (\<^verbatim>\<open>do_list\<close>, \<^verbatim>\<open>log_info\<close>, \<^verbatim>\<open>log_error\<close>, the dump
  functions) has no influence on any returned value and is left out, and so are the
  reference counts of certificate objects. Memory allocation by \<^verbatim>\<open>xtrymalloc\<close>
  and \<^verbatim>\<open>xtrycalloc\<close> is taken to succeed.
\<close>

subsection \<open>Error values\<close>

text \<open>
  Modelled from the spec: the numeric values of the libgpg-error codes and sources are
  not under src/, so the codes the file names are the constructors of a datatype.
  \<open>GPG_ERR_CODE n\<close> stands for any code the file does not name.
\<close>

datatype gpg_err_code_t =
    GPG_ERR_NO_ERROR | GPG_ERR_GENERAL | GPG_ERR_BAD_SIGNATURE | GPG_ERR_EOF
  | GPG_ERR_NO_VALUE | GPG_ERR_NO_DATA | GPG_ERR_NOT_FOUND | GPG_ERR_BAD_CERT
  | GPG_ERR_BAD_CERT_CHAIN | GPG_ERR_BAD_CA_CERT | GPG_ERR_UNSUPPORTED_CERT
  | GPG_ERR_CERT_TOO_YOUNG | GPG_ERR_CERT_EXPIRED | GPG_ERR_CERT_REVOKED
  | GPG_ERR_NO_CRL_KNOWN | GPG_ERR_CRL_TOO_OLD | GPG_ERR_NO_POLICY_MATCH
  | GPG_ERR_MISSING_CERT | GPG_ERR_NOT_TRUSTED | GPG_ERR_NOT_SUPPORTED
  | GPG_ERR_CANCELED | GPG_ERR_CONFIGURATION | GPG_ERR_LINE_TOO_LONG
  | GPG_ERR_INCOMPLETE_LINE | GPG_ERR_BUFFER_TOO_SHORT | GPG_ERR_CODE nat

datatype gpg_err_source_t =
    GPG_ERR_SOURCE_UNKNOWN | GPG_ERR_SOURCE_DEFAULT | GPG_ERR_SOURCE nat

text \<open>
  A value of C type \<^verbatim>\<open>gpg_error_t\<close> or of an \<^verbatim>\<open>int\<close> holding one:
  a source and a code, or the \<^verbatim>\<open>-1\<close> the file uses for "not found".
  The value 0 is \<open>no_error\<close>.
\<close>

datatype gpg_error_t = Err gpg_err_source_t gpg_err_code_t | Minus1

definition no_error :: gpg_error_t where
  "no_error = Err GPG_ERR_SOURCE_UNKNOWN GPG_ERR_NO_ERROR"

fun gpg_err_code :: "gpg_error_t \<Rightarrow> gpg_err_code_t" where
  "gpg_err_code (Err s c) = c"
| "gpg_err_code Minus1 = GPG_ERR_CODE 65535"

definition gpg_error :: "gpg_err_code_t \<Rightarrow> gpg_error_t" where
  "gpg_error c =
     (if c = GPG_ERR_NO_ERROR then no_error else Err GPG_ERR_SOURCE_DEFAULT c)"

subsection \<open>C strings and the policy file stream\<close>

definition NUL :: char where
  "NUL = CHR 0x00"

definition NL :: char where
  "NL = CHR 0x0A"

text \<open>The string a \<^verbatim>\<open>char\<close> buffer holds: its bytes up to the first NUL.\<close>

definition cstr :: "string \<Rightarrow> string" where
  "cstr buf = takeWhile (\<lambda>c. c \<noteq> NUL) buf"

text \<open>
  Modelled from the spec: the macro \<^verbatim>\<open>spacep\<close> is not under src/; the
  spec's "whitespace" is read as blank or tab.
\<close>

definition spacep :: "char \<Rightarrow> bool" where
  "spacep c = (c = CHR '' '' \<or> c = CHR 0x09)"

text \<open>\<^verbatim>\<open>strstr (haystack, needle) != NULL\<close>.\<close>

fun is_prefix :: "string \<Rightarrow> string \<Rightarrow> bool" where
  "is_prefix [] ys = True"
| "is_prefix (x # xs) [] = False"
| "is_prefix (x # xs) (y # ys) = (x = y \<and> is_prefix xs ys)"

fun strstr_found :: "string \<Rightarrow> string \<Rightarrow> bool" where
  "strstr_found [] needle = (needle = [])"
| "strstr_found (c # cs) needle = (is_prefix needle (c # cs) \<or> strstr_found cs needle)"

text \<open>
  A stdio stream open for reading: the bytes not yet read, and what the stream reports
  once they are used up, end of file or a read error (carrying the code that
  \<^verbatim>\<open>gpg_err_code_from_errno (errno)\<close> gives for it).
\<close>

datatype stream_end = AtEOF | ReadError gpg_err_code_t

record stream =
  f_data :: string
  f_end :: stream_end

text \<open>
  The bytes one \<^verbatim>\<open>fgets\<close> call with room for \<open>k\<close> characters stores:
  at most \<open>k\<close>, stopping after a newline.
\<close>

fun fgets_take :: "nat \<Rightarrow> string \<Rightarrow> string \<times> string" where
  "fgets_take 0 s = ([], s)"
| "fgets_take (Suc k) [] = ([], [])"
| "fgets_take (Suc k) (c # cs) =
     (if c = NL then ([c], cs)
      else (case fgets_take k cs of (l, r) \<Rightarrow> (c # l, r)))"

text \<open>
  \<^verbatim>\<open>fgets (buf, n, fp)\<close>: reads at most \<open>n - 1\<close> characters. The result is
  \<open>None\<close> (a NULL return) at end of file with nothing read and on a read error.
\<close>

definition fgets :: "nat \<Rightarrow> stream \<Rightarrow> string option \<times> stream" where
  "fgets n fp =
     (case fgets_take (n - 1) (f_data fp) of (l, r) \<Rightarrow>
        if l = [] then (None, fp\<lparr>f_data := r\<rparr>)
        else if r = [] \<and> length l < n - 1 \<and> last l \<noteq> NL \<and> f_end fp \<noteq> AtEOF
        then (None, fp\<lparr>f_data := r\<rparr>)
        else (Some l, fp\<lparr>f_data := r\<rparr>))"

definition feof :: "stream \<Rightarrow> bool" where
  "feof fp = (f_data fp = [] \<and> f_end fp = AtEOF)"

text \<open>
  \<^verbatim>\<open>gpg_err_code_from_errno (errno)\<close> after a failed read: the code of the
  stream's read error, no error when there was none.
\<close>

definition errno_code :: "stream \<Rightarrow> gpg_err_code_t" where
  "errno_code fp = (case f_end fp of ReadError c \<Rightarrow> c | AtEOF \<Rightarrow> GPG_ERR_NO_ERROR)"

subsection \<open>check\_cert\_policy\<close>

text \<open>
  The search of lines 322-332: is there an occurrence of \<open>allowed\<close> in the policy
  listing that starts a line (\<open>prev\<close> is the character before the position, \<open>None\<close>
  at the start of the listing) and is followed by a colon.
\<close>

fun find_policy :: "string \<Rightarrow> char option \<Rightarrow> string \<Rightarrow> bool" where
  "find_policy allowed prev [] = False"
| "find_policy allowed prev (c # cs) =
     (if is_prefix allowed (c # cs)
         \<and> (prev = None \<or> prev = Some NL)
         \<and> (case drop (length allowed) (c # cs) of [] \<Rightarrow> False | x # xs \<Rightarrow> x = CHR '':'')
      then True
      else find_policy allowed (Some c) cs)"

text \<open>What the loop returns at end of file (lines 275-288).\<close>

definition policy_not_allowed :: "bool \<Rightarrow> gpg_error_t" where
  "policy_not_allowed any_critical =
     (if \<not> any_critical then no_error else gpg_error GPG_ERR_NO_POLICY_MATCH)"

text \<open>The first field of a line that is neither blank nor a comment (lines 311-313).\<close>

definition policy_token :: "string \<Rightarrow> string" where
  "policy_token line =
     takeWhile (\<lambda>c. c \<noteq> CHR '' '' \<and> c \<noteq> CHR '':'' \<and> c \<noteq> NL) (dropWhile spacep line)"

text \<open>The test of line 308: the line is empty or a comment, read the next one.\<close>

definition policy_skip_line :: "string \<Rightarrow> bool" where
  "policy_skip_line line =
     (case dropWhile spacep line of [] \<Rightarrow> True | c # cs \<Rightarrow> c = NL \<or> c = CHR ''#'')"

text \<open>
  What is done with one line read by \<^verbatim>\<open>fgets\<close> whose last character is a
  newline (lines 304-332): \<open>None\<close> when the next line is to be read, the return value
  otherwise.
\<close>

definition policy_line :: "string \<Rightarrow> string \<Rightarrow> gpg_error_t option" where
  "policy_line policies line =
     (if policy_skip_line line then None
      else if policy_token line = [] then Some (gpg_error GPG_ERR_CONFIGURATION)
      else if find_policy (policy_token line) None policies then Some no_error
      else None)"

lemma fgets_take_shorter:
  "fgets_take (Suc k) s = (l, r) \<Longrightarrow> l \<noteq> [] \<Longrightarrow> length r < length s"
proof (induction k arbitrary: s l r)
  case 0
  then show ?case by (cases s) (auto split: if_splits)
next
  case (Suc k)
  show ?case
  proof (cases s)
    case Nil
    with Suc.prems show ?thesis by simp
  next
    case (Cons c cs)
    show ?thesis
    proof (cases "c = NL")
      case True
      with Cons Suc.prems show ?thesis by auto
    next
      case False
      obtain l' r' where t: "fgets_take (Suc k) cs = (l', r')" by force
      with Cons False Suc.prems have r: "r = r'" by simp
      show ?thesis
      proof (cases "l' = []")
        case True
        with t have "length r' \<le> length cs"
          by (cases cs) (auto split: if_splits prod.splits)
        with r Cons show ?thesis by simp
      next
        case False
        from Suc.IH [OF t False] r Cons show ?thesis by simp
      qed
    qed
  qed
qed

lemma fgets_shorter:
  assumes "fgets 255 fp = (Some line, fp')"
  shows "length (f_data fp') < length (f_data fp)"
proof -
  obtain l r where t: "fgets_take (Suc 253) (f_data fp) = (l, r)" by force
  have n: "(255::nat) - 1 = Suc 253" by simp
  from assms t have "l \<noteq> []" and "f_data fp' = r"
    by (auto simp: fgets_def n split: if_splits)
  with fgets_take_shorter [OF t] show ?thesis by simp
qed

text \<open>
  The loop of lines 261-333 over the open policy file. The buffer \<^verbatim>\<open>line\<close> has
  256 bytes and \<^verbatim>\<open>fgets\<close> is given \<^verbatim>\<open>DIM(line)-1\<close>, that is 255.
\<close>

function policy_loop :: "bool \<Rightarrow> string \<Rightarrow> stream \<Rightarrow> gpg_error_t" where
  "policy_loop any_critical policies fp =
     (case fgets 255 fp of
        (None, fp') \<Rightarrow>
          (if feof fp' then policy_not_allowed any_critical
           else gpg_error (errno_code fp'))
      | (Some line, fp') \<Rightarrow>
          (if cstr line = [] \<or> last (cstr line) \<noteq> NL
           then gpg_error (if cstr line \<noteq> [] then GPG_ERR_LINE_TOO_LONG
                           else GPG_ERR_INCOMPLETE_LINE)
           else (case policy_line policies (cstr line) of
                   Some rc \<Rightarrow> rc
                 | None \<Rightarrow> policy_loop any_critical policies fp')))"
  by pat_completeness auto
termination
  by (relation "measure (\<lambda>(a, p, fp). length (f_data fp))")
     (auto dest: fgets_shorter [OF sym])

declare policy_loop.simps [simp del]

subsection \<open>Certificates, options, responders and the world\<close>

text \<open>
  Modelled from the spec: libksba's certificate object is not under src/. A certificate
  is the record of what the accessors the file calls return for it: the image
  (\<open>None\<close> when \<^verbatim>\<open>ksba_cert_get_image\<close> returns NULL), the issuer and subject
  DN, the serial number, the two validity times with the error code of the call, the
  extensions in index order with the error that ends the iteration, the result of
  \<^verbatim>\<open>ksba_cert_is_ca\<close> (error, CA flag, path length), the policy listing, the
  authority key identifier (error, keyIdentifier, first issuer name with serial), the
  subject key identifier and the SHA-1 fingerprint. \<open>cert_obj\<close> identifies the object
  in memory: user data is attached to the object, and every \<^verbatim>\<open>keydb_get_cert\<close>
  makes a new one.
\<close>

record cert =
  cert_obj :: nat
  cert_image :: "string option"
  cert_issuer :: "string option"
  cert_subject :: "string option"
  cert_serial :: string
  cert_not_before :: "gpg_error_t \<times> string"
  cert_not_after :: "gpg_error_t \<times> string"
  cert_extensions :: "(string \<times> bool) list"
  cert_ext_end :: gpg_error_t
  cert_is_ca :: "gpg_error_t \<times> bool \<times> int"
  cert_policies :: "gpg_error_t \<times> string"
  cert_aki :: "gpg_error_t \<times> string option \<times> (string \<times> string) option"
  cert_skid :: "gpg_error_t \<times> string"
  cert_fpr :: string

text \<open>
  The options of \<^verbatim>\<open>opt\<close> and \<^verbatim>\<open>ctrl\<close> the file reads, the clock, and the
  external collaborators as functions: the file system (\<^verbatim>\<open>fopen\<close> of the policy
  file), gpg-agent, dirmngr, the signature check, the key usage check, the list of
  qualified root certificates, and whether \<^verbatim>\<open>ksba_cert_set_user_data\<close> and
  \<^verbatim>\<open>keydb_new\<close> fail.
\<close>

record env =
  opt_no_chain_validation :: bool
  opt_no_policy_check :: bool
  opt_no_crl_check :: bool
  opt_no_trusted_cert_crl_check :: bool
  opt_ignore_expiration :: bool
  opt_auto_issuer_key_retrieve :: bool
  opt_policy_file :: "string option"
  ctrl_use_ocsp :: bool
  current_time :: string
  fopen :: "string \<Rightarrow> stream option"
  gpgsm_agent_istrusted :: "cert \<Rightarrow> gpg_error_t \<times> bool"
  gpgsm_agent_marktrusted :: "cert \<Rightarrow> gpg_error_t"
  gpgsm_dirmngr_isvalid :: "cert \<Rightarrow> cert \<Rightarrow> bool \<Rightarrow> gpg_error_t"
  gpgsm_dirmngr_lookup :: "string list \<Rightarrow> gpg_error_t \<times> cert list"
  gpgsm_check_cert_sig :: "cert \<Rightarrow> cert \<Rightarrow> gpg_error_t"
  gpgsm_cert_use_cert_p :: "cert \<Rightarrow> gpg_error_t"
  gpgsm_is_in_qualified_list :: "cert \<Rightarrow> gpg_error_t \<times> string"
  set_user_data_rc :: "cert \<Rightarrow> string \<Rightarrow> gpg_error_t"
  keydb_new_ok :: bool

datatype keybox_flag = KEYBOX_FLAG_VALIDITY | KEYBOX_FLAG nat

datatype flag_value = VALIDITY_REVOKED | FLAG_VALUE nat

text \<open>
  What persists between calls: the user data of the certificate objects, the next free
  object identity, the certificates of the key database (the ordinary ones and the
  ephemeral ones), the flags stored there per fingerprint, the list
  \<^verbatim>\<open>marktrusted_info\<close> and the static \<^verbatim>\<open>no_more_questions\<close>.
\<close>

record world =
  w_udata :: "nat \<times> string \<Rightarrow> string option"
  w_next_obj :: nat
  w_store :: "cert list"
  w_eph :: "cert list"
  w_cert_flags :: "string \<times> keybox_flag \<times> nat \<Rightarrow> flag_value option"
  w_marktrusted_info :: "string list"
  w_no_more_questions :: bool

subsection \<open>User data of certificate objects\<close>

text \<open>
  Modelled from the spec: \<^verbatim>\<open>ksba_cert_get_user_data\<close> and
  \<^verbatim>\<open>ksba_cert_set_user_data\<close> are not under src/. Reading a key that was never
  set gives \<open>GPG_ERR_NOT_FOUND\<close>, reading into a buffer that is too small gives
  \<open>GPG_ERR_BUFFER_TOO_SHORT\<close>; a successful read gives the stored bytes. Setting
  stores the bytes unless the call fails.
\<close>

definition ksba_cert_get_user_data ::
    "world \<Rightarrow> cert \<Rightarrow> string \<Rightarrow> nat \<Rightarrow> gpg_error_t \<times> string" where
  "ksba_cert_get_user_data w c key bufsize =
     (case w_udata w (cert_obj c, key) of
        None \<Rightarrow> (Err (GPG_ERR_SOURCE 9) GPG_ERR_NOT_FOUND, [])
      | Some d \<Rightarrow>
          if bufsize < length d then (Err (GPG_ERR_SOURCE 9) GPG_ERR_BUFFER_TOO_SHORT, [])
          else (no_error, d))"

definition ksba_cert_set_user_data ::
    "env \<Rightarrow> world \<Rightarrow> cert \<Rightarrow> string \<Rightarrow> string \<Rightarrow> gpg_error_t \<times> world" where
  "ksba_cert_set_user_data e w c key d =
     (if set_user_data_rc e c key \<noteq> no_error then (set_user_data_rc e c key, w)
      else (no_error, w\<lparr>w_udata := (w_udata w)((cert_obj c, key) \<mapsto> d)\<rparr>))"

text \<open>
  Modelled from the spec: \<^verbatim>\<open>ksba_cert_ref\<close> and \<^verbatim>\<open>ksba_cert_release\<close> are
  not under src/, and the world keeps no reference counts. \<open>ksba_cert_free\<close> is the
  release of the last reference to an object: the object is destroyed together with
  its user data.
\<close>

definition ksba_cert_free :: "world \<Rightarrow> cert \<Rightarrow> world" where
  "ksba_cert_free w c =
     w\<lparr>w_udata := (\<lambda>k. if fst k = cert_obj c then None else w_udata w k)\<rparr>"

subsection \<open>The key database\<close>

text \<open>
  Modelled from the spec: the key database (sm/keydb.c, kbx/) is not under src/. A
  handle is a cursor: the position the next search starts at, the position of the
  certificate found last, and the ephemeral flag, which makes the ephemeral
  certificates visible after the ordinary ones. A search returns 0 and moves to the
  next match, or returns -1 when there is none ("no more"). \<^verbatim>\<open>keydb_get_cert\<close>
  makes a new object of the certificate found; it fails when nothing was found.
\<close>

record keydb_handle =
  kh_pos :: nat
  kh_found :: "nat option"
  kh_ephemeral :: bool

definition keydb_new :: "env \<Rightarrow> keydb_handle option" where
  "keydb_new e =
     (if keydb_new_ok e then Some \<lparr>kh_pos = 0, kh_found = None, kh_ephemeral = False\<rparr>
      else None)"

definition keydb_all :: "world \<Rightarrow> cert list" where
  "keydb_all w = w_store w @ w_eph w"

definition keydb_visible :: "world \<Rightarrow> keydb_handle \<Rightarrow> cert list" where
  "keydb_visible w kh = w_store w @ (if kh_ephemeral kh then w_eph w else [])"

definition keydb_search_reset :: "keydb_handle \<Rightarrow> keydb_handle" where
  "keydb_search_reset kh = kh\<lparr>kh_pos := 0, kh_found := None\<rparr>"

definition keydb_search ::
    "(cert \<Rightarrow> bool) \<Rightarrow> world \<Rightarrow> keydb_handle \<Rightarrow> gpg_error_t \<times> keydb_handle" where
  "keydb_search P w kh =
     (case List.find (\<lambda>i. P (keydb_visible w kh ! i))
             [kh_pos kh ..< length (keydb_visible w kh)] of
        None \<Rightarrow> (Minus1, kh\<lparr>kh_pos := length (keydb_visible w kh)\<rparr>)
      | Some i \<Rightarrow> (no_error, kh\<lparr>kh_pos := Suc i, kh_found := Some i\<rparr>))"

definition keydb_search_subject ::
    "world \<Rightarrow> keydb_handle \<Rightarrow> string \<Rightarrow> gpg_error_t \<times> keydb_handle" where
  "keydb_search_subject w kh name = keydb_search (\<lambda>c. cert_subject c = Some name) w kh"

definition keydb_search_issuer_sn ::
    "world \<Rightarrow> keydb_handle \<Rightarrow> string \<Rightarrow> string \<Rightarrow> gpg_error_t \<times> keydb_handle" where
  "keydb_search_issuer_sn w kh issuer serial =
     keydb_search (\<lambda>c. cert_issuer c = Some issuer \<and> cert_serial c = serial) w kh"

definition keydb_get_cert :: "world \<Rightarrow> keydb_handle \<Rightarrow> (cert \<times> world) option" where
  "keydb_get_cert w kh =
     (case kh_found kh of
        None \<Rightarrow> None
      | Some i \<Rightarrow>
          if i < length (keydb_all w)
          then Some ((keydb_all w ! i)\<lparr>cert_obj := w_next_obj w\<rparr>,
                     w\<lparr>w_next_obj := Suc (w_next_obj w)\<rparr>)
          else None)"

definition keydb_set_ephemeral :: "keydb_handle \<Rightarrow> bool \<Rightarrow> bool \<times> keydb_handle" where
  "keydb_set_ephemeral kh yes = (kh_ephemeral kh, kh\<lparr>kh_ephemeral := yes\<rparr>)"

text \<open>
  \<^verbatim>\<open>keydb_store_cert (cert, 1, NULL)\<close>: the certificate becomes an ephemeral one
  unless the database has a certificate of the same fingerprint already.
\<close>

definition keydb_store_cert :: "world \<Rightarrow> cert \<Rightarrow> world" where
  "keydb_store_cert w c =
     (if list_ex (\<lambda>d. cert_fpr d = cert_fpr c) (keydb_all w) then w
      else w\<lparr>w_eph := w_eph w @ [c]\<rparr>)"

text \<open>
  \<^verbatim>\<open>keydb_set_cert_flags\<close>: sets the flag of the certificate with this fingerprint;
  an error when the database has no such certificate.
\<close>

definition keydb_set_cert_flags ::
    "world \<Rightarrow> cert \<Rightarrow> keybox_flag \<Rightarrow> nat \<Rightarrow> flag_value \<Rightarrow> gpg_error_t \<times> world" where
  "keydb_set_cert_flags w c which idx v =
     (if list_ex (\<lambda>d. cert_fpr d = cert_fpr c) (keydb_all w)
      then (no_error, w\<lparr>w_cert_flags := (w_cert_flags w)((cert_fpr c, which, idx) \<mapsto> v)\<rparr>)
      else (gpg_error GPG_ERR_NOT_FOUND, w))"

subsection \<open>The small helpers of certchain.c\<close>

definition already_asked_marktrusted :: "world \<Rightarrow> cert \<Rightarrow> bool" where
  "already_asked_marktrusted w c = (cert_fpr c \<in> set (w_marktrusted_info w))"

definition set_already_asked_marktrusted :: "world \<Rightarrow> cert \<Rightarrow> world" where
  "set_already_asked_marktrusted w c =
     (if cert_fpr c \<in> set (w_marktrusted_info w) then w
      else w\<lparr>w_marktrusted_info := cert_fpr c # w_marktrusted_info w\<rparr>)"

text \<open>\<^verbatim>\<open>compare_certs\<close> returns 0 if both images exist and are equal, else 1.\<close>

definition compare_certs :: "cert \<Rightarrow> cert \<Rightarrow> int" where
  "compare_certs a b =
     (case cert_image a of
        None \<Rightarrow> 1
      | Some img_a \<Rightarrow>
          (case cert_image b of
             None \<Rightarrow> 1
           | Some img_b \<Rightarrow> if img_a = img_b then 0 else 1))"

definition known_criticals :: "string list" where
  "known_criticals = [''2.5.29.15'', ''2.5.29.19'', ''2.5.29.32'', ''2.5.29.37'']"

definition unknown_criticals :: "cert \<Rightarrow> gpg_error_t" where
  "unknown_criticals c =
     (let rc = (if list_ex (\<lambda>(oid, crit). crit \<and> \<not> List.member known_criticals oid)
                     (cert_extensions c)
                then gpg_error GPG_ERR_UNSUPPORTED_CERT else no_error);
          err = cert_ext_end c
      in if err \<noteq> no_error \<and> gpg_err_code err \<noteq> GPG_ERR_EOF
            \<and> gpg_err_code err \<noteq> GPG_ERR_NO_VALUE
         then err else rc)"

definition check_cert_policy :: "env \<Rightarrow> cert \<Rightarrow> gpg_error_t" where
  "check_cert_policy e c =
     (case cert_policies c of (err, policies) \<Rightarrow>
        if gpg_err_code err = GPG_ERR_NO_DATA \<or> gpg_err_code err = GPG_ERR_NO_VALUE
        then no_error
        else if err \<noteq> no_error then err
        else
          (let any_critical = strstr_found policies '':C'' in
           case opt_policy_file e of
             None \<Rightarrow>
               (if any_critical then gpg_error GPG_ERR_NO_POLICY_MATCH else no_error)
           | Some name \<Rightarrow>
               (case fopen e name of
                  None \<Rightarrow> policy_not_allowed any_critical
                | Some fp \<Rightarrow> policy_loop any_critical policies fp)))"

definition gpgsm_is_root_cert :: "cert \<Rightarrow> bool" where
  "gpgsm_is_root_cert c =
     (case cert_issuer c of
        None \<Rightarrow> False
      | Some issuer \<Rightarrow>
          (case cert_subject c of None \<Rightarrow> False | Some subject \<Rightarrow> issuer = subject))"

subsection \<open>is\_cert\_still\_valid\<close>

text \<open>
  The three flags the function writes through its pointer arguments are passed and
  returned as a triple \<open>(any_revoked, any_no_crl, any_crl_too_old)\<close>.
\<close>

definition is_cert_still_valid ::
    "env \<Rightarrow> world \<Rightarrow> cert \<Rightarrow> cert \<Rightarrow> bool \<times> bool \<times> bool
       \<Rightarrow> gpg_error_t \<times> (bool \<times> bool \<times> bool) \<times> world" where
  "is_cert_still_valid e w subject_cert issuer_cert fl =
     (case fl of (any_revoked, any_no_crl, any_crl_too_old) \<Rightarrow>
        if \<not> opt_no_crl_check e \<or> ctrl_use_ocsp e then
          (let err = gpgsm_dirmngr_isvalid e subject_cert issuer_cert (ctrl_use_ocsp e) in
           if err \<noteq> no_error then
             (if gpg_err_code err = GPG_ERR_CERT_REVOKED then
                (no_error, (True, any_no_crl, any_crl_too_old),
                 snd (keydb_set_cert_flags w subject_cert KEYBOX_FLAG_VALIDITY 0
                        VALIDITY_REVOKED))
              else if gpg_err_code err = GPG_ERR_NO_CRL_KNOWN then
                (no_error, (any_revoked, True, any_crl_too_old), w)
              else if gpg_err_code err = GPG_ERR_CRL_TOO_OLD then
                (no_error, (any_revoked, any_no_crl, True), w)
              else (err, fl, w))
           else (no_error, fl, w))
        else (no_error, fl, w))"

subsection \<open>find\_up and its helpers\<close>

lemma keydb_search_found:
  assumes "keydb_search P w kh = (no_error, kh')"
  shows "\<exists>i. kh_pos kh \<le> i \<and> i < length (keydb_visible w kh) \<and> P (keydb_visible w kh ! i)
           \<and> kh' = kh\<lparr>kh_pos := Suc i, kh_found := Some i\<rparr>"
proof -
  from assms obtain i where
    f: "List.find (\<lambda>i. P (keydb_visible w kh ! i))
          [kh_pos kh ..< length (keydb_visible w kh)] = Some i"
    and k: "kh' = kh\<lparr>kh_pos := Suc i, kh_found := Some i\<rparr>"
    by (auto simp: keydb_search_def no_error_def split: option.splits)
  from f have "i \<in> set [kh_pos kh ..< length (keydb_visible w kh)]"
    and "P (keydb_visible w kh ! i)"
    by (auto simp: find_Some_iff)
  with k show ?thesis by auto
qed

lemma keydb_get_cert_stores:
  assumes "keydb_get_cert w kh = Some (c, w')"
  shows "w_store w' = w_store w" and "w_eph w' = w_eph w" and "w_udata w' = w_udata w"
  using assms by (auto simp: keydb_get_cert_def split: option.splits if_splits)

lemma search_by_keyid_decreases:
  assumes "(no_error, kh1) = keydb_search_subject w kh issuer"
    and g: "keydb_get_cert w kh1 = Some (c, w1)"
  shows "length (keydb_visible w1 kh1) - kh_pos kh1 < length (keydb_visible w kh) - kh_pos kh"
proof -
  from assms have s: "keydb_search (\<lambda>c. cert_subject c = Some issuer) w kh = (no_error, kh1)"
    by (simp add: keydb_search_subject_def)
  from keydb_search_found [OF s] obtain i where
    i: "kh_pos kh \<le> i" "i < length (keydb_visible w kh)"
       "kh1 = kh\<lparr>kh_pos := Suc i, kh_found := Some i\<rparr>"
    by blast
  from keydb_get_cert_stores [OF g] i have "keydb_visible w1 kh1 = keydb_visible w kh"
    by (simp add: keydb_visible_def)
  with i show ?thesis by simp
qed

text \<open>
  The loop of lines 349-365. \<^verbatim>\<open>cmp_simple_canon_sexp\<close> compares the two canonical
  S-expressions byte by byte.
\<close>

function search_by_keyid_loop ::
    "world \<Rightarrow> keydb_handle \<Rightarrow> string \<Rightarrow> string \<Rightarrow> gpg_error_t \<times> keydb_handle \<times> world" where
  "search_by_keyid_loop w kh issuer keyid =
     (case keydb_search_subject w kh issuer of (rc, kh1) \<Rightarrow>
        if rc \<noteq> no_error then (rc, kh1, w)
        else
          (case keydb_get_cert w kh1 of
             None \<Rightarrow> (Minus1, kh1, w)
           | Some (c, w1) \<Rightarrow>
               (case cert_skid c of (err, subj) \<Rightarrow>
                  if err = no_error \<and> keyid = subj then (no_error, kh1, w1)
                  else search_by_keyid_loop w1 kh1 issuer keyid)))"
  by pat_completeness auto
termination
  by (relation "measure (\<lambda>(w, kh, i, k). length (keydb_visible w kh) - kh_pos kh)")
     (auto dest: search_by_keyid_decreases)

declare search_by_keyid_loop.simps [simp del]

definition find_up_search_by_keyid ::
    "world \<Rightarrow> keydb_handle \<Rightarrow> string \<Rightarrow> string \<Rightarrow> gpg_error_t \<times> keydb_handle \<times> world" where
  "find_up_search_by_keyid w kh issuer keyid =
     (case search_by_keyid_loop w (keydb_search_reset kh) issuer keyid of (rc, kh1, w1) \<Rightarrow>
        (if rc \<noteq> no_error then Minus1 else no_error, kh1, w1))"

text \<open>The callback stores the certificate as an ephemeral one and counts it.\<close>

definition find_up_store_certs_cb :: "cert \<Rightarrow> world \<times> nat \<Rightarrow> world \<times> nat" where
  "find_up_store_certs_cb c wn = (keydb_store_cert (fst wn) c, Suc (snd wn))"

text \<open>The index of the first occurrence of the needle, as \<^verbatim>\<open>strstr\<close> finds it.\<close>

fun strstr_index :: "string \<Rightarrow> string \<Rightarrow> nat option" where
  "strstr_index [] needle = (if needle = [] then Some 0 else None)"
| "strstr_index (c # cs) needle =
     (if is_prefix needle (c # cs) then Some 0
      else map_option Suc (strstr_index cs needle))"

definition external_pattern :: "string \<Rightarrow> string" where
  "external_pattern issuer =
     CHR ''/'' #
       (case strstr_index issuer ''CN='' of
          None \<Rightarrow> issuer
        | Some i \<Rightarrow>
            if i = 0 \<or> issuer ! (i - 1) \<noteq> CHR '','' then issuer else drop i issuer)"

definition find_up_external ::
    "env \<Rightarrow> world \<Rightarrow> keydb_handle \<Rightarrow> string \<Rightarrow> string option
       \<Rightarrow> gpg_error_t \<times> keydb_handle \<times> world" where
  "find_up_external e w kh issuer keyid =
     (case gpgsm_dirmngr_lookup e [external_pattern issuer] of (rc, certs) \<Rightarrow>
        (case fold find_up_store_certs_cb certs (w, 0) of (w1, count) \<Rightarrow>
           if rc \<noteq> no_error then (Minus1, kh, w1)
           else if count = 0 then (Minus1, kh, w1)
           else
             (case keydb_set_ephemeral kh True of (old, kh1) \<Rightarrow>
                (case (case keyid of
                         Some k \<Rightarrow> find_up_search_by_keyid w1 kh1 issuer k
                       | None \<Rightarrow>
                           (case keydb_search_subject w1 (keydb_search_reset kh1) issuer of
                              (rc1, kh2) \<Rightarrow> (rc1, kh2, w1))) of
                   (rc2, kh3, w3) \<Rightarrow> (rc2, snd (keydb_set_ephemeral kh3 old), w3)))))"

text \<open>Lines 463-480: the search by the issuer name and serial number of the AKI.\<close>

definition find_up_issuer_sn ::
    "world \<Rightarrow> keydb_handle \<Rightarrow> string \<Rightarrow> string \<Rightarrow> bool \<Rightarrow> gpg_error_t \<times> keydb_handle" where
  "find_up_issuer_sn w kh s authidno find_next =
     (case keydb_search_issuer_sn w kh s authidno of (rc, kh1) \<Rightarrow>
        (let kh2 = (if rc \<noteq> no_error then keydb_search_reset kh1 else kh1) in
         if rc = Minus1 \<and> \<not> find_next then
           (case keydb_set_ephemeral kh2 True of (old, kh3) \<Rightarrow>
              (case (if \<not> old then
                       (case keydb_search_issuer_sn w kh3 s authidno of (rc1, kh4) \<Rightarrow>
                          (rc1, if rc1 \<noteq> no_error then keydb_search_reset kh4 else kh4))
                     else (rc, kh3)) of
                 (rc2, kh5) \<Rightarrow> (rc2, snd (keydb_set_ephemeral kh5 old))))
         else (rc, kh2)))"

text \<open>Lines 490-499: the search by the keyIdentifier of the AKI.\<close>

definition find_up_keyid ::
    "world \<Rightarrow> keydb_handle \<Rightarrow> string \<Rightarrow> string \<Rightarrow> gpg_error_t \<times> keydb_handle \<times> world" where
  "find_up_keyid w kh issuer keyid =
     (case find_up_search_by_keyid w kh issuer keyid of (rc, kh1, w1) \<Rightarrow>
        (case (if rc \<noteq> no_error then
                 (case keydb_set_ephemeral kh1 True of (old, kh2) \<Rightarrow>
                    (case (if \<not> old then find_up_search_by_keyid w1 kh2 issuer keyid
                           else (rc, kh2, w1)) of
                       (rc1, kh3, w3) \<Rightarrow> (rc1, snd (keydb_set_ephemeral kh3 old), w3)))
               else (rc, kh1, w1)) of
           (rc2, kh4, w4) \<Rightarrow> (if rc2 \<noteq> no_error then Minus1 else rc2, kh4, w4)))"

text \<open>Lines 458-533: the three attempts made when the certificate has an AKI.\<close>

definition find_up_aki ::
    "env \<Rightarrow> world \<Rightarrow> keydb_handle \<Rightarrow> cert \<Rightarrow> string \<Rightarrow> bool
       \<Rightarrow> gpg_error_t \<times> keydb_handle \<times> world" where
  "find_up_aki e w kh c issuer find_next =
     (case cert_aki c of (err, keyid, authid) \<Rightarrow>
        if err = no_error then
          (case (case authid of
                   Some (s, authidno) \<Rightarrow>
                     if cstr authidno \<noteq> [] then find_up_issuer_sn w kh s authidno find_next
                     else (Minus1, kh)
                 | None \<Rightarrow> (Minus1, kh)) of
             (rc, kh1) \<Rightarrow>
               (case (case keyid of
                        Some k \<Rightarrow>
                          if rc = Minus1 \<and> \<not> find_next then find_up_keyid w kh1 issuer k
                          else (rc, kh1, w)
                      | None \<Rightarrow> (rc, kh1, w)) of
                  (rc1, kh2, w2) \<Rightarrow>
                    if rc1 = Minus1 \<and> opt_auto_issuer_key_retrieve e \<and> \<not> find_next
                    then find_up_external e w2 kh2 issuer keyid
                    else (rc1, kh2, w2)))
        else (Minus1, kh, w))"

text \<open>Lines 535-547: the search by the issuer name.\<close>

definition find_up_subject ::
    "world \<Rightarrow> keydb_handle \<Rightarrow> string \<Rightarrow> bool \<Rightarrow> gpg_error_t \<Rightarrow> gpg_error_t \<times> keydb_handle" where
  "find_up_subject w kh issuer find_next rc =
     (case (if rc \<noteq> no_error then keydb_search_subject w kh issuer else (rc, kh)) of
        (rc1, kh1) \<Rightarrow>
          if rc1 = Minus1 \<and> \<not> find_next then
            (case keydb_set_ephemeral kh1 True of (old, kh2) \<Rightarrow>
               (case (if \<not> old then keydb_search_subject w (keydb_search_reset kh2) issuer
                      else (rc1, kh2)) of
                  (rc2, kh3) \<Rightarrow> (rc2, snd (keydb_set_ephemeral kh3 old))))
          else (rc1, kh1))"

definition find_up ::
    "env \<Rightarrow> world \<Rightarrow> keydb_handle \<Rightarrow> cert \<Rightarrow> string \<Rightarrow> bool
       \<Rightarrow> gpg_error_t \<times> keydb_handle \<times> world" where
  "find_up e w kh c issuer find_next =
     (case find_up_aki e w kh c issuer find_next of (rc, kh1, w1) \<Rightarrow>
        (case find_up_subject w1 kh1 issuer find_next rc of (rc1, kh2) \<Rightarrow>
           if rc1 = Minus1 \<and> opt_auto_issuer_key_retrieve e \<and> \<not> find_next
           then find_up_external e w1 kh2 issuer None
           else (rc1, kh2, w1)))"

subsection \<open>gpgsm\_walk\_cert\_chain\<close>

text \<open>
  The result is the return code with \<^verbatim>\<open>*r_next\<close>: \<open>Inr next\<close> stands for the
  return code 0, \<open>Inl rc\<close> for every other return, where \<^verbatim>\<open>*r_next\<close> is NULL.
\<close>

definition gpgsm_walk_cert_chain :: "env \<Rightarrow> world \<Rightarrow> cert \<Rightarrow> (gpg_error_t + cert) \<times> world" where
  "gpgsm_walk_cert_chain e w start =
     (case keydb_new e of
        None \<Rightarrow> (Inl (gpg_error GPG_ERR_GENERAL), w)
      | Some kh \<Rightarrow>
          (case cert_issuer start of
             None \<Rightarrow> (Inl (gpg_error GPG_ERR_BAD_CERT), w)
           | Some issuer \<Rightarrow>
               (case cert_subject start of
                  None \<Rightarrow> (Inl (gpg_error GPG_ERR_BAD_CERT), w)
                | Some subject \<Rightarrow>
                    if issuer = subject then (Inl Minus1, w)
                    else
                      (case find_up e w kh start issuer False of (rc, kh1, w1) \<Rightarrow>
                         if rc \<noteq> no_error then (Inl (gpg_error GPG_ERR_MISSING_CERT), w1)
                         else
                           (case keydb_get_cert w1 kh1 of
                              None \<Rightarrow> (Inl (gpg_error GPG_ERR_GENERAL), w1)
                            | Some (next, w2) \<Rightarrow> (Inr next, w2))))))"

subsection \<open>get\_regtp\_ca\_info and allowed\_ca\<close>

definition regtp_key :: string where
  "regtp_key = ''regtp_ca_chainlen''"

text \<open>
  The loop of lines 1403-1409, with the variables it changes: \<open>rc\<close>, \<open>cert\<close> and the
  array, whose length is \<open>depth\<close>. \<^verbatim>\<open>DIM(array)\<close> is 4.
\<close>

function regtp_walk ::
    "env \<Rightarrow> world \<Rightarrow> gpg_error_t \<Rightarrow> cert \<Rightarrow> cert list
       \<Rightarrow> gpg_error_t \<times> cert \<times> cert list \<times> world" where
  "regtp_walk e w rc c array =
     (if length array < 4 then
        (case gpgsm_walk_cert_chain e w c of
           (Inl rc1, w1) \<Rightarrow> (rc1, c, array, w1)
         | (Inr next, w1) \<Rightarrow> regtp_walk e w1 no_error next (array @ [next]))
      else (rc, c, array, w))"
  by pat_completeness auto
termination
  by (relation "measure (\<lambda>(e, w, rc, c, array). 4 - length array)") auto

declare regtp_walk.simps [simp del]

text \<open>
  The loops of lines 1432-1433 and 1445-1446, which release every entry of the array.
  Entry 0 is the argument, of which the caller keeps its own reference. Every other
  entry is an object made by \<^verbatim>\<open>gpgsm_walk_cert_chain\<close>: the references taken and
  released in lines 1400-1410 leave it with the one reference of the array, so this
  release destroys it.
\<close>

definition regtp_release :: "world \<Rightarrow> cert list \<Rightarrow> world" where
  "regtp_release w array = fold (\<lambda>c w1. ksba_cert_free w1 c) (tl array) w"

text \<open>
  Lines 1438-1447, the label \<^verbatim>\<open>leave\<close>: one user data value of length 1, the
  byte 0, is set for the certificate the variable \<^verbatim>\<open>cert\<close> holds, then the
  entries of the array are released.
\<close>

definition regtp_leave :: "env \<Rightarrow> world \<Rightarrow> cert \<Rightarrow> cert list \<Rightarrow> bool \<times> int \<times> world" where
  "regtp_leave e w c array =
     (False, 0, regtp_release (snd (ksba_cert_set_user_data e w c regtp_key [NUL])) array)"

text \<open>
  The value of a \<^verbatim>\<open>char\<close> as an \<^verbatim>\<open>int\<close> (line 1381); plain \<^verbatim>\<open>char\<close> is
  taken as signed, so the bytes from 0x80 on are negative.
\<close>

definition char_value :: "char \<Rightarrow> int" where
  "char_value c = (if of_char c < (128 :: int) then of_char c else of_char c - 256)"

text \<open>
  The result is the return value, the value stored through \<^verbatim>\<open>chainlen\<close> (or
  into \<^verbatim>\<open>dummy_chainlen\<close>), and the world.
\<close>

definition get_regtp_ca_info :: "env \<Rightarrow> world \<Rightarrow> cert \<Rightarrow> bool \<times> int \<times> world" where
  "get_regtp_ca_info e w c =
     (case ksba_cert_get_user_data w c regtp_key 2 of (err, buf) \<Rightarrow>
        if err = no_error then
          (if length buf < 2 \<or> hd buf = NUL then (False, 0, w)
           else (True, char_value (buf ! 1), w))
        else if gpg_err_code err \<noteq> GPG_ERR_NOT_FOUND then (False, 0, w)
        else
          (case regtp_walk e w no_error c [c] of (rc, c1, array, w1) \<Rightarrow>
             if rc \<noteq> Minus1 \<or> length array = 0 \<or> length array = 4
             then regtp_leave e w1 c1 array
             else
               (case gpgsm_is_in_qualified_list e (last array) of (qerr, country) \<Rightarrow>
                  if qerr = no_error \<and> cstr country = ''de'' then
                    (case ksba_cert_set_user_data e w1 (last array) regtp_key
                            [CHR 0x01, CHR 0x01] of
                       (err1, w2) \<Rightarrow>
                         (True, if 1 < length array then 0 else 1,
                          regtp_release
                            (if err1 = no_error \<and> 1 < length array
                             then snd (ksba_cert_set_user_data e w2
                                         (array ! (length array - 2)) regtp_key
                                         [CHR 0x01, CHR 0x00])
                             else w2)
                            array))
                  else regtp_leave e w1 c1 array)))"

text \<open>
  The result is the return code, the value of \<^verbatim>\<open>*chainlen\<close> after the call, and
  the world. A caller reads the chain length only after a return code of 0.
\<close>

definition allowed_ca :: "env \<Rightarrow> world \<Rightarrow> cert \<Rightarrow> gpg_error_t \<times> int \<times> world" where
  "allowed_ca e w c =
     (case cert_is_ca c of (err, flag, chainlen) \<Rightarrow>
        if err \<noteq> no_error then (err, chainlen, w)
        else if \<not> flag then
          (case get_regtp_ca_info e w c of (yes, chainlen1, w1) \<Rightarrow>
             if yes then (no_error, chainlen1, w1)
             else (gpg_error GPG_ERR_BAD_CA_CERT, chainlen1, w1))
        else (no_error, chainlen, w))"

subsection \<open>gpgsm\_validate\_chain\<close>

text \<open>
  The local variables of the function that live across the iterations of its loop.
  An isotime is the string its buffer holds, so \<^verbatim>\<open>*t\<close> is \<open>t \<noteq> []\<close> and
  \<^verbatim>\<open>strcmp (a, b) < 0\<close> is \<open>a < b\<close> in the lexicographic order of the bytes.
  \<open>vs_dated\<close> is not a variable of the C function: it records, latest first, the
  certificates whose validity period the walk has read.
\<close>

record vstate =
  vs_subject_cert :: cert
  vs_depth :: int
  vs_exptime :: string
  vs_any_expired :: bool
  vs_any_revoked :: bool
  vs_any_no_crl :: bool
  vs_any_crl_too_old :: bool
  vs_any_no_policy_match :: bool
  vs_is_qualified :: int
  vs_kh :: keydb_handle
  vs_world :: world
  vs_dated :: "cert list"

definition maxdepth :: int where
  "maxdepth = 50"

datatype exit_kind = ByBreak | ByLeave

datatype step_result = Exit exit_kind gpg_error_t vstate | Continue vstate

datatype flow = Leave gpg_error_t vstate | Ok vstate

text \<open>Lines 777-827: the validity period.\<close>

definition check_validity :: "env \<Rightarrow> vstate \<Rightarrow> flow" where
  "check_validity e st =
     (case cert_not_before (vs_subject_cert st) of (rc0, not_before) \<Rightarrow>
        (case cert_not_after (vs_subject_cert st) of (rc1, not_after) \<Rightarrow>
           if rc0 \<noteq> no_error \<or> rc1 \<noteq> no_error then Leave (gpg_error GPG_ERR_BAD_CERT) st
           else
             (let st1 = st\<lparr>vs_exptime :=
                            (if not_after \<noteq> [] then
                               (if vs_exptime st = [] then not_after
                                else if not_after < vs_exptime st then not_after
                                else vs_exptime st)
                             else vs_exptime st),
                          vs_dated := vs_subject_cert st # vs_dated st\<rparr>
              in if not_before \<noteq> [] \<and> current_time e < not_before
                 then Leave (gpg_error GPG_ERR_CERT_TOO_YOUNG) st1
                 else if not_after \<noteq> [] \<and> not_after < current_time e
                         \<and> \<not> opt_ignore_expiration e
                 then Ok (st1\<lparr>vs_any_expired := True\<rparr>)
                 else Ok st1)))"

text \<open>
  Lines 777-845: the validity period, the critical extensions and the policy check.
  The \<^verbatim>\<open>rc = 1\<close> of line 841 is overwritten before it is read.
\<close>

definition node_checks :: "env \<Rightarrow> vstate \<Rightarrow> flow" where
  "node_checks e st =
     (case check_validity e st of
        Leave rc st1 \<Rightarrow> Leave rc st1
      | Ok st1 \<Rightarrow>
          (let rc = unknown_criticals (vs_subject_cert st1) in
           if rc \<noteq> no_error then Leave rc st1
           else if \<not> opt_no_policy_check e then
             (let rc1 = check_cert_policy e (vs_subject_cert st1) in
              if gpg_err_code rc1 = GPG_ERR_NO_POLICY_MATCH
              then Ok (st1\<lparr>vs_any_no_policy_match := True\<rparr>)
              else if rc1 \<noteq> no_error then Leave rc1 st1
              else Ok st1)
           else Ok st1))"

definition qualified_key :: string where
  "qualified_key = ''is_qualified''"

text \<open>The byte \<^verbatim>\<open>!!is_qualified\<close>.\<close>

definition qualified_byte :: "int \<Rightarrow> char" where
  "qualified_byte q = (if q \<noteq> 0 then CHR 0x01 else NUL)"

text \<open>Lines 878-917: the flag for qualified signatures; \<open>c\<close> is the argument \<^verbatim>\<open>cert\<close>.\<close>

definition root_qualified :: "env \<Rightarrow> cert \<Rightarrow> vstate \<Rightarrow> vstate" where
  "root_qualified e c st =
     (if vs_is_qualified st = - 1 then
        (case ksba_cert_get_user_data (vs_world st) c qualified_key 1 of (err, buf) \<Rightarrow>
           if err = no_error \<and> length buf \<noteq> 0
           then st\<lparr>vs_is_qualified := (if hd buf \<noteq> NUL then 1 else 0)\<rparr>
           else
             (case gpgsm_is_in_qualified_list e (vs_subject_cert st) of (qerr, country) \<Rightarrow>
                (let q = (if qerr = no_error then 1
                          else if gpg_err_code qerr = GPG_ERR_NOT_FOUND then 0
                          else - 1)
                 in if q \<noteq> - 1
                    then st\<lparr>vs_is_qualified := q,
                            vs_world := snd (ksba_cert_set_user_data e (vs_world st)
                                               (vs_subject_cert st) qualified_key
                                               [qualified_byte q])\<rparr>
                    else st)))
      else st)"

text \<open>Lines 920-982: acting on the result of the check for a trusted root.\<close>

definition root_trust :: "env \<Rightarrow> bool \<Rightarrow> gpg_error_t \<Rightarrow> vstate \<Rightarrow> gpg_error_t \<times> vstate" where
  "root_trust e lm istrusted_rc st =
     (if istrusted_rc = no_error then (istrusted_rc, st)
      else if gpg_err_code istrusted_rc = GPG_ERR_NOT_TRUSTED then
        (if \<not> vs_any_expired st
            \<and> (\<not> lm \<or> \<not> already_asked_marktrusted (vs_world st) (vs_subject_cert st))
         then
           (let rc2 = (if w_no_more_questions (vs_world st)
                       then gpg_error GPG_ERR_NOT_SUPPORTED
                       else gpgsm_agent_marktrusted e (vs_subject_cert st))
            in (if rc2 = no_error then no_error else istrusted_rc,
                st\<lparr>vs_world :=
                     (if gpg_err_code rc2 = GPG_ERR_NOT_SUPPORTED
                      then (vs_world st)\<lparr>w_no_more_questions := True\<rparr>
                      else if gpg_err_code rc2 = GPG_ERR_CANCELED
                      then (vs_world st)\<lparr>w_no_more_questions := True\<rparr>
                      else set_already_asked_marktrusted (vs_world st)
                             (vs_subject_cert st))\<rparr>))
         else (istrusted_rc, st))
      else (istrusted_rc, st))"

text \<open>The three revocation flags of the state, and the state with them replaced.\<close>

definition rev_flags :: "vstate \<Rightarrow> bool \<times> bool \<times> bool" where
  "rev_flags st = (vs_any_revoked st, vs_any_no_crl st, vs_any_crl_too_old st)"

definition set_rev :: "vstate \<Rightarrow> (bool \<times> bool \<times> bool) \<times> world \<Rightarrow> vstate" where
  "set_rev st r =
     (case r of ((a, b, c), w) \<Rightarrow>
        st\<lparr>vs_any_revoked := a, vs_any_no_crl := b, vs_any_crl_too_old := c, vs_world := w\<rparr>)"

text \<open>Lines 987-1000: the revocation check of the root and the end of the loop.\<close>

definition root_revocation :: "env \<Rightarrow> nat \<Rightarrow> bool \<Rightarrow> vstate \<Rightarrow> step_result" where
  "root_revocation e flags relax st =
     (if odd flags then Exit ByBreak no_error st
      else if opt_no_trusted_cert_crl_check e \<or> relax then Exit ByBreak no_error st
      else
        (case is_cert_still_valid e (vs_world st) (vs_subject_cert st) (vs_subject_cert st)
                (rev_flags st) of
           (rc, r) \<Rightarrow>
             if rc \<noteq> no_error then Exit ByLeave rc (set_rev st r)
             else Exit ByBreak rc (set_rev st r)))"

text \<open>
  Lines 849-1001: the certificate is self-issued. \<open>c\<close> is the argument \<^verbatim>\<open>cert\<close>,
  \<open>istrusted_rc\<close> and \<open>relax\<close> are what \<^verbatim>\<open>gpgsm_agent_istrusted\<close> gave at line 772.
\<close>

definition root_branch ::
    "env \<Rightarrow> bool \<Rightarrow> nat \<Rightarrow> cert \<Rightarrow> gpg_error_t \<Rightarrow> bool \<Rightarrow> vstate \<Rightarrow> step_result" where
  "root_branch e lm flags c istrusted_rc relax st =
     (if istrusted_rc \<noteq> no_error
         \<and> gpgsm_check_cert_sig e (vs_subject_cert st) (vs_subject_cert st) \<noteq> no_error
      then Exit ByLeave
             (gpg_error (if vs_depth st \<noteq> 0 then GPG_ERR_BAD_CERT_CHAIN else GPG_ERR_BAD_CERT))
             st
      else
        (case (if \<not> relax then allowed_ca e (vs_world st) (vs_subject_cert st)
               else (no_error, 0, vs_world st)) of
           (rc, chainlen, w1) \<Rightarrow>
             if rc \<noteq> no_error then Exit ByLeave rc (st\<lparr>vs_world := w1\<rparr>)
             else
               (case root_trust e lm istrusted_rc
                       (root_qualified e c (st\<lparr>vs_world := w1\<rparr>)) of
                  (rc1, st1) \<Rightarrow>
                    if rc1 \<noteq> no_error then Exit ByLeave rc1 st1
                    else root_revocation e flags relax st1)))"

text \<open>
  Lines 1042-1095, the label \<^verbatim>\<open>try_another_cert\<close>: the signature check and the
  search for another issuer certificate after a bad signature. Nothing in the code
  bounds the number of retries, so the function takes fuel and returns \<open>None\<close> when
  it runs out. The result is the return code, the issuer certificate, the handle and
  the world.
\<close>

fun try_another_cert ::
    "nat \<Rightarrow> env \<Rightarrow> world \<Rightarrow> keydb_handle \<Rightarrow> cert \<Rightarrow> string \<Rightarrow> cert
       \<Rightarrow> (gpg_error_t \<times> cert \<times> keydb_handle \<times> world) option" where
  "try_another_cert 0 e w kh subject_cert issuer issuer_cert = None"
| "try_another_cert (Suc n) e w kh subject_cert issuer issuer_cert =
     (let rc = gpgsm_check_cert_sig e issuer_cert subject_cert in
      if rc \<noteq> no_error then
        (if gpg_err_code rc = GPG_ERR_BAD_SIGNATURE then
           (case find_up e w kh subject_cert issuer True of (rc1, kh1, w1) \<Rightarrow>
              if rc1 = no_error then
                (case keydb_get_cert w1 kh1 of
                   None \<Rightarrow> Some (gpg_error GPG_ERR_BAD_CERT_CHAIN, issuer_cert, kh1, w1)
                 | Some (tmp_cert, w2) \<Rightarrow>
                     if compare_certs issuer_cert tmp_cert = 0
                     then Some (gpg_error GPG_ERR_BAD_CERT_CHAIN, issuer_cert, kh1, w2)
                     else try_another_cert n e w2 kh1 subject_cert issuer tmp_cert)
              else Some (gpg_error GPG_ERR_BAD_CERT_CHAIN, issuer_cert, kh1, w1))
         else Some (gpg_error GPG_ERR_BAD_CERT_CHAIN, issuer_cert, kh, w))
      else Some (no_error, issuer_cert, kh, w))"

text \<open>
  Lines 1100-1138: is the issuer allowed to issue certificates. The result is the
  return code, the chain length, what is known about the issuer as a root
  (\<open>None\<close> when \<^verbatim>\<open>is_root\<close> is 0, else \<^verbatim>\<open>istrusted_rc\<close> and the relax flag),
  and the world.
\<close>

definition issuer_allowed ::
    "env \<Rightarrow> world \<Rightarrow> cert \<Rightarrow> gpg_error_t \<times> int \<times> (gpg_error_t \<times> bool) option \<times> world" where
  "issuer_allowed e w issuer_cert =
     (case allowed_ca e w issuer_cert of (rc, chainlen, w1) \<Rightarrow>
        if rc \<noteq> no_error then
          (if gpgsm_is_root_cert issuer_cert then
             (case gpgsm_agent_istrusted e issuer_cert of (istrusted_rc, relax) \<Rightarrow>
                if istrusted_rc = no_error \<and> relax
                then (no_error, - 1, Some (istrusted_rc, relax), w1)
                else (rc, chainlen, Some (istrusted_rc, relax), w1))
           else (rc, chainlen, None, w1))
        else (rc, chainlen, None, w1))"

text \<open>Lines 1154-1167: the revocation check of the edge from subject to issuer.\<close>

definition edge_revocation ::
    "env \<Rightarrow> nat \<Rightarrow> (gpg_error_t \<times> bool) option \<Rightarrow> cert \<Rightarrow> vstate \<Rightarrow> gpg_error_t \<times> vstate" where
  "edge_revocation e flags root_info issuer_cert st =
     (if odd flags then (no_error, st)
      else if (case root_info of
                 None \<Rightarrow> False
               | Some (istrusted_rc, relax) \<Rightarrow>
                   opt_no_trusted_cert_crl_check e \<or> (istrusted_rc = no_error \<and> relax))
      then (no_error, st)
      else
        (case is_cert_still_valid e (vs_world st) (vs_subject_cert st) issuer_cert
                (rev_flags st) of
           (rc, r) \<Rightarrow> (rc, set_rev st r)))"

text \<open>
  Lines 1097-1177: the checks of the issuer certificate whose signature on the subject
  was good, and the step to the next round.
\<close>

definition hop_issuer :: "env \<Rightarrow> bool \<Rightarrow> nat \<Rightarrow> cert \<Rightarrow> vstate \<Rightarrow> step_result" where
  "hop_issuer e lm flags issuer_cert st =
     (case issuer_allowed e (vs_world st) issuer_cert of (rc, chainlen, root_info, w1) \<Rightarrow>
        if rc \<noteq> no_error then Exit ByLeave rc (st\<lparr>vs_world := w1\<rparr>)
        else if 0 \<le> chainlen \<and> chainlen < vs_depth st - 1
        then Exit ByLeave (gpg_error GPG_ERR_BAD_CERT_CHAIN) (st\<lparr>vs_world := w1\<rparr>)
        else if \<not> lm \<and> gpgsm_cert_use_cert_p e issuer_cert \<noteq> no_error
        then Exit ByLeave (gpgsm_cert_use_cert_p e issuer_cert) (st\<lparr>vs_world := w1\<rparr>)
        else
          (case edge_revocation e flags root_info issuer_cert (st\<lparr>vs_world := w1\<rparr>) of
             (rc1, st1) \<Rightarrow>
               if rc1 \<noteq> no_error then Exit ByLeave rc1 st1
               else Continue (st1\<lparr>vs_kh := keydb_search_reset (vs_kh st1),
                                  vs_subject_cert := issuer_cert\<rparr>)))"

text \<open>
  Lines 1003-1177: the certificate is not self-issued. The depth is incremented and
  checked, the issuer is looked up and its signature on the subject verified.
\<close>

definition hop :: "nat \<Rightarrow> env \<Rightarrow> bool \<Rightarrow> nat \<Rightarrow> string \<Rightarrow> vstate \<Rightarrow> step_result option" where
  "hop fuel e lm flags issuer st0 =
     (let st = st0\<lparr>vs_depth := vs_depth st0 + 1\<rparr> in
      if maxdepth < vs_depth st then Some (Exit ByLeave (gpg_error GPG_ERR_BAD_CERT_CHAIN) st)
      else
        (case find_up e (vs_world st) (keydb_search_reset (vs_kh st)) (vs_subject_cert st)
                issuer False of
           (rc, kh1, w1) \<Rightarrow>
             if rc \<noteq> no_error
             then Some (Exit ByLeave (gpg_error GPG_ERR_MISSING_CERT)
                          (st\<lparr>vs_kh := kh1, vs_world := w1\<rparr>))
             else
               (case keydb_get_cert w1 kh1 of
                  None \<Rightarrow> Some (Exit ByLeave (gpg_error GPG_ERR_GENERAL)
                                   (st\<lparr>vs_kh := kh1, vs_world := w1\<rparr>))
                | Some (issuer_cert, w2) \<Rightarrow>
                    (case try_another_cert fuel e w2 kh1 (vs_subject_cert st) issuer
                            issuer_cert of
                       None \<Rightarrow> None
                     | Some (rc1, issuer_cert1, kh2, w3) \<Rightarrow>
                         if rc1 \<noteq> no_error
                         then Some (Exit ByLeave rc1 (st\<lparr>vs_kh := kh2, vs_world := w3\<rparr>))
                         else Some (hop_issuer e lm flags issuer_cert1
                                      (st\<lparr>vs_kh := kh2, vs_world := w3\<rparr>))))))"

text \<open>
  One round of the loop of lines 746-1178; \<open>c\<close> is the argument \<^verbatim>\<open>cert\<close>.
\<close>

definition chain_step ::
    "nat \<Rightarrow> env \<Rightarrow> bool \<Rightarrow> nat \<Rightarrow> cert \<Rightarrow> vstate \<Rightarrow> step_result option" where
  "chain_step fuel e lm flags c st =
     (case cert_issuer (vs_subject_cert st) of
        None \<Rightarrow> Some (Exit ByLeave (gpg_error GPG_ERR_BAD_CERT) st)
      | Some issuer \<Rightarrow>
          (case node_checks e st of
             Leave rc st1 \<Rightarrow> Some (Exit ByLeave rc st1)
           | Ok st1 \<Rightarrow>
               if cert_subject (vs_subject_cert st) = Some issuer
               then (case gpgsm_agent_istrusted e (vs_subject_cert st) of
                       (istrusted_rc, relax) \<Rightarrow>
                         Some (root_branch e lm flags c istrusted_rc relax st1))
               else hop fuel e lm flags issuer st1))"

lemma check_validity_depth:
  "check_validity e st = Ok st1 \<Longrightarrow> vs_depth st1 = vs_depth st"
  by (auto simp: check_validity_def Let_def split: prod.splits if_splits)

lemma node_checks_depth:
  "node_checks e st = Ok st1 \<Longrightarrow> vs_depth st1 = vs_depth st"
  by (auto simp: node_checks_def Let_def split: flow.splits if_splits
      dest: check_validity_depth)

lemma set_rev_depth: "vs_depth (set_rev st r) = vs_depth st"
  by (simp add: set_rev_def split: prod.splits)

lemma edge_revocation_depth:
  "edge_revocation e flags ri ic st = (rc, st1) \<Longrightarrow> vs_depth st1 = vs_depth st"
  by (auto simp: edge_revocation_def set_rev_depth split: if_splits prod.splits)

lemma hop_issuer_depth:
  "hop_issuer e lm flags ic st = Continue st' \<Longrightarrow> vs_depth st' = vs_depth st"
  by (auto simp: hop_issuer_def split: prod.splits if_splits dest: edge_revocation_depth)

lemma hop_depth:
  assumes "hop fuel e lm flags issuer st = Some (Continue st')"
  shows "vs_depth st' = vs_depth st + 1 \<and> vs_depth st' \<le> maxdepth"
  using assms
  by (auto simp: hop_def Let_def split: if_splits prod.splits option.splits
      dest: hop_issuer_depth)

lemma root_revocation_exits: "root_revocation e flags relax st \<noteq> Continue st'"
  by (simp add: root_revocation_def split: prod.splits)

lemma root_branch_exits: "root_branch e lm flags c irc relax st \<noteq> Continue st'"
  by (simp add: root_branch_def root_revocation_exits split: prod.splits)

lemma chain_step_depth:
  assumes "chain_step fuel e lm flags c st = Some (Continue st')"
  shows "vs_depth st' = vs_depth st + 1 \<and> vs_depth st' \<le> maxdepth"
proof -
  from assms obtain issuer st1 where
    n: "node_checks e st = Ok st1" and h: "hop fuel e lm flags issuer st1 = Some (Continue st')"
    by (auto simp: chain_step_def root_branch_exits
        split: option.splits flow.splits if_splits prod.splits)
  from hop_depth [OF h] node_checks_depth [OF n] show ?thesis by simp
qed

text \<open>
  The loop of lines 746-1178. It ends by \<^verbatim>\<open>break\<close> or by \<^verbatim>\<open>goto leave\<close>,
  with the value of \<open>rc\<close> at that point; \<open>None\<close> when a retry loop ran out of fuel.
\<close>

function chain_loop ::
    "nat \<Rightarrow> env \<Rightarrow> bool \<Rightarrow> nat \<Rightarrow> cert \<Rightarrow> vstate
       \<Rightarrow> (exit_kind \<times> gpg_error_t \<times> vstate) option" where
  "chain_loop fuel e lm flags c st =
     (case chain_step fuel e lm flags c st of
        None \<Rightarrow> None
      | Some (Exit k rc st1) \<Rightarrow> Some (k, rc, st1)
      | Some (Continue st1) \<Rightarrow> chain_loop fuel e lm flags c st1)"
  by pat_completeness auto
termination
  by (relation "measure (\<lambda>(fuel, e, lm, flags, c, st). nat (maxdepth + 1 - vs_depth st))")
     (auto dest: chain_step_depth simp: maxdepth_def)

declare chain_loop.simps [simp del]

text \<open>Lines 1190-1203: the most critical of the errors met during the checks.\<close>

definition chain_verdict :: "gpg_error_t \<Rightarrow> vstate \<Rightarrow> gpg_error_t" where
  "chain_verdict rc st =
     (if rc = no_error then
        (if vs_any_revoked st then gpg_error GPG_ERR_CERT_REVOKED
         else if vs_any_expired st then gpg_error GPG_ERR_CERT_EXPIRED
         else if vs_any_no_crl st then gpg_error GPG_ERR_NO_CRL_KNOWN
         else if vs_any_crl_too_old st then gpg_error GPG_ERR_CRL_TOO_OLD
         else if vs_any_no_policy_match st then gpg_error GPG_ERR_NO_POLICY_MATCH
         else rc)
      else rc)"

text \<open>
  Lines 1205-1234, the label \<^verbatim>\<open>leave\<close>. \<open>r_exptime\<close> tells whether the argument
  of that name is not NULL; the second component of the result is what it then holds.
\<close>

definition validate_leave ::
    "env \<Rightarrow> world \<Rightarrow> cert \<Rightarrow> bool \<Rightarrow> gpg_error_t \<Rightarrow> int \<Rightarrow> string
       \<Rightarrow> gpg_error_t \<times> string option \<times> world" where
  "validate_leave e w c r_exptime rc is_qualified exptime =
     (case (if is_qualified \<noteq> - 1 then
              (case ksba_cert_set_user_data e w c qualified_key
                      [qualified_byte is_qualified] of
                 (err, w1) \<Rightarrow>
                   (if err \<noteq> no_error \<and> rc = no_error then err else rc, w1))
            else (rc, w)) of
        (rc1, w2) \<Rightarrow> (rc1, if r_exptime then Some exptime else None, w2))"

definition initial_vstate :: "world \<Rightarrow> keydb_handle \<Rightarrow> cert \<Rightarrow> vstate" where
  "initial_vstate w kh c =
     \<lparr>vs_subject_cert = c, vs_depth = 0, vs_exptime = [], vs_any_expired = False,
      vs_any_revoked = False, vs_any_no_crl = False, vs_any_crl_too_old = False,
      vs_any_no_policy_match = False, vs_is_qualified = - 1, vs_kh = kh, vs_world = w,
      vs_dated = []\<rparr>"

text \<open>
  The whole function. The result is the return value, the time stored through
  \<^verbatim>\<open>r_exptime\<close> and the world; \<open>None\<close> when a retry loop ran out of fuel.
  The condition \<^verbatim>\<open>flags & 1\<close> is \<open>odd flags\<close>.
\<close>

definition gpgsm_validate_chain ::
    "nat \<Rightarrow> env \<Rightarrow> world \<Rightarrow> cert \<Rightarrow> bool \<Rightarrow> bool \<Rightarrow> nat
       \<Rightarrow> (gpg_error_t \<times> string option \<times> world) option" where
  "gpgsm_validate_chain fuel e w c r_exptime listmode flags =
     (if opt_no_chain_validation e \<and> \<not> listmode
      then Some (no_error, if r_exptime then Some [] else None, w)
      else
        (case keydb_new e of
           None \<Rightarrow>
             Some (validate_leave e w c r_exptime (gpg_error GPG_ERR_GENERAL) (- 1) [])
         | Some kh \<Rightarrow>
             (case chain_loop fuel e listmode flags c (initial_vstate w kh c) of
                None \<Rightarrow> None
              | Some (k, rc, st) \<Rightarrow>
                  Some (validate_leave e (vs_world st) c r_exptime
                          (case k of ByBreak \<Rightarrow> chain_verdict rc st | ByLeave \<Rightarrow> rc)
                          (vs_is_qualified st) (vs_exptime st)))))"

subsection \<open>gpgsm\_basic\_cert\_check\<close>

definition gpgsm_basic_cert_check :: "env \<Rightarrow> world \<Rightarrow> cert \<Rightarrow> gpg_error_t \<times> world" where
  "gpgsm_basic_cert_check e w c =
     (if opt_no_chain_validation e then (no_error, w)
      else
        (case keydb_new e of
           None \<Rightarrow> (gpg_error GPG_ERR_GENERAL, w)
         | Some kh \<Rightarrow>
             (case cert_issuer c of
                None \<Rightarrow> (gpg_error GPG_ERR_BAD_CERT, w)
              | Some issuer \<Rightarrow>
                  if cert_subject c = Some issuer then
                    (if gpgsm_check_cert_sig e c c \<noteq> no_error
                     then (gpg_error GPG_ERR_BAD_CERT, w)
                     else (no_error, w))
                  else
                    (case find_up e w (keydb_search_reset kh) c issuer False of
                       (rc, kh1, w1) \<Rightarrow>
                         if rc \<noteq> no_error then (gpg_error GPG_ERR_MISSING_CERT, w1)
                         else
                           (case keydb_get_cert w1 kh1 of
                              None \<Rightarrow> (gpg_error GPG_ERR_GENERAL, w1)
                            | Some (issuer_cert, w2) \<Rightarrow>
                                if gpgsm_check_cert_sig e issuer_cert c \<noteq> no_error
                                then (gpg_error GPG_ERR_BAD_CERT, w2)
                                else (no_error, w2))))))"

subsection \<open>Rounds of the loop\<close>

text \<open>
  The state with which round \<open>k\<close> of the loop starts, counting from 0: \<open>None\<close> if
  the loop has ended before, or a retry loop ran out of fuel.
\<close>

fun state_after ::
    "nat \<Rightarrow> nat \<Rightarrow> env \<Rightarrow> bool \<Rightarrow> nat \<Rightarrow> cert \<Rightarrow> vstate \<Rightarrow> vstate option" where
  "state_after 0 fuel e lm flags c st = Some st"
| "state_after (Suc k) fuel e lm flags c st =
     (case chain_step fuel e lm flags c st of
        Some (Continue st1) \<Rightarrow> state_after k fuel e lm flags c st1
      | _ \<Rightarrow> None)"

text \<open>The return code with which a round jumps to \<^verbatim>\<open>leave\<close>, if it does.\<close>

definition leave_rc :: "step_result option \<Rightarrow> gpg_error_t option" where
  "leave_rc r = (case r of Some (Exit ByLeave rc st) \<Rightarrow> Some rc | _ \<Rightarrow> None)"

text \<open>The round passes lines 777-845: validity period, critical extensions, policies.\<close>

definition node_ok :: "env \<Rightarrow> vstate \<Rightarrow> bool" where
  "node_ok e st = (case node_checks e st of Ok st1 \<Rightarrow> True | Leave rc st1 \<Rightarrow> False)"

subsection \<open>The earliest expiration time\<close>

text \<open>
  The minimum of the times of a list that are not empty, in the order of
  \<^verbatim>\<open>strcmp\<close>; the empty time if there is none.
\<close>

definition earliest :: "string list \<Rightarrow> string" where
  "earliest ts = (if filter (\<lambda>t. t \<noteq> []) ts = [] then []
                  else Min (set (filter (\<lambda>t. t \<noteq> []) ts)))"

text \<open>Both calls of \<^verbatim>\<open>ksba_cert_get_validity\<close> succeed for the certificate.\<close>

definition validity_read :: "cert \<Rightarrow> bool" where
  "validity_read c = (fst (cert_not_before c) = no_error \<and> fst (cert_not_after c) = no_error)"

text \<open>The certificate that is the subject of round \<open>k\<close> of the loop.\<close>

definition round_cert ::
    "nat \<Rightarrow> nat \<Rightarrow> env \<Rightarrow> bool \<Rightarrow> nat \<Rightarrow> cert \<Rightarrow> vstate \<Rightarrow> cert" where
  "round_cert k fuel e lm flags c st =
     (case state_after k fuel e lm flags c st of
        Some st1 \<Rightarrow> vs_subject_cert st1
      | None \<Rightarrow> c)"

text \<open>The walk reads the validity period of the certificate: it has an issuer DN and
  both times can be fetched.\<close>

definition dated :: "cert \<Rightarrow> bool" where
  "dated c = (cert_issuer c \<noteq> None \<and> validity_read c)"

text \<open>The round ends the loop.\<close>

definition round_exits :: "step_result option \<Rightarrow> bool" where
  "round_exits r = (case r of Some (Exit k rc st) \<Rightarrow> True | _ \<Rightarrow> False)"

text \<open>The certificates that the walk of \<^verbatim>\<open>get_regtp_ca_info\<close> puts into its array.\<close>

definition regtp_visited :: "env \<Rightarrow> world \<Rightarrow> cert \<Rightarrow> cert list" where
  "regtp_visited e w c = (case regtp_walk e w no_error c [c] of (rc, c1, array, w1) \<Rightarrow> array)"

text \<open>
  The certificate of the key database on which the cursor of a handle is positioned:
  the one of which \<^verbatim>\<open>keydb_get_cert\<close> makes an object.
\<close>

definition found_cert :: "world \<Rightarrow> keydb_handle \<Rightarrow> cert option" where
  "found_cert w kh =
     (case kh_found kh of
        None \<Rightarrow> None
      | Some i \<Rightarrow> if i < length (keydb_all w) then Some (keydb_all w ! i) else None)"

text \<open>
  The certificate is one that a search of \<^verbatim>\<open>find_up\<close> for the issuer of \<open>c\<close>
  looks for: its subject DN is the issuer DN given, or its issuer DN and serial
  number are those named by the authority key identifier of \<open>c\<close>.
\<close>

definition issuer_candidate :: "cert \<Rightarrow> string \<Rightarrow> cert \<Rightarrow> bool" where
  "issuer_candidate c issuer d =
     (cert_subject d = Some issuer
      \<or> (case snd (snd (cert_aki c)) of
            None \<Rightarrow> False
          | Some (s, sn) \<Rightarrow> cert_issuer d = Some s \<and> cert_serial d = sn))"

text \<open>What a round does to the expiration time and to the list of dated certificates.\<close>

definition exptime_inv :: "vstate \<Rightarrow> bool" where
  "exptime_inv st = (vs_exptime st = earliest (map (\<lambda>c. snd (cert_not_after c)) (vs_dated st)))"

fun flow_state :: "flow \<Rightarrow> vstate" where
  "flow_state (Leave rc st) = st"
| "flow_state (Ok st) = st"

fun step_state :: "step_result \<Rightarrow> vstate" where
  "step_state (Exit k rc st) = st"
| "step_state (Continue st) = st"

section \<open>Sample inputs\<close>

text \<open>
  A certificate with the given subject and issuer DN that passes every check of its
  own: valid from 2000 to 2030, no extensions, a CA without path length limit, no
  policies, no authority key identifier.
\<close>

definition sample_cert :: "string \<Rightarrow> string \<Rightarrow> cert" where
  "sample_cert subject issuer =
     \<lparr>cert_obj = 0, cert_image = Some subject, cert_issuer = Some issuer,
      cert_subject = Some subject, cert_serial = subject,
      cert_not_before = (no_error, ''20000101T000000''),
      cert_not_after = (no_error, ''20300101T000000''),
      cert_extensions = [], cert_ext_end = Err (GPG_ERR_SOURCE 9) GPG_ERR_EOF,
      cert_is_ca = (no_error, True, - 1),
      cert_policies = (Err (GPG_ERR_SOURCE 9) GPG_ERR_NO_DATA, []),
      cert_aki = (Err (GPG_ERR_SOURCE 9) GPG_ERR_NO_DATA, None, None),
      cert_skid = (Err (GPG_ERR_SOURCE 9) GPG_ERR_NO_DATA, []),
      cert_fpr = subject\<rparr>"

text \<open>
  An environment in which every responder agrees: every root is trusted, nothing is
  revoked, every signature is good, no certificate is on the qualified list.
\<close>

definition sample_env :: env where
  "sample_env =
     \<lparr>opt_no_chain_validation = False, opt_no_policy_check = False,
      opt_no_crl_check = False, opt_no_trusted_cert_crl_check = False,
      opt_ignore_expiration = False, opt_auto_issuer_key_retrieve = False,
      opt_policy_file = None, ctrl_use_ocsp = False,
      current_time = ''20200101T000000'',
      fopen = (\<lambda>name. None),
      gpgsm_agent_istrusted = (\<lambda>c. (no_error, False)),
      gpgsm_agent_marktrusted = (\<lambda>c. no_error),
      gpgsm_dirmngr_isvalid = (\<lambda>s i ocsp. no_error),
      gpgsm_dirmngr_lookup = (\<lambda>names. (no_error, [])),
      gpgsm_check_cert_sig = (\<lambda>i s. no_error),
      gpgsm_cert_use_cert_p = (\<lambda>c. no_error),
      gpgsm_is_in_qualified_list =
        (\<lambda>c. (Err GPG_ERR_SOURCE_DEFAULT GPG_ERR_NOT_FOUND, [])),
      set_user_data_rc = (\<lambda>c key. no_error),
      keydb_new_ok = True\<rparr>"

definition sample_world :: "cert list \<Rightarrow> world" where
  "sample_world store =
     \<lparr>w_udata = (\<lambda>k. None), w_next_obj = 1, w_store = store, w_eph = [],
      w_cert_flags = (\<lambda>k. None), w_marktrusted_info = [], w_no_more_questions = False\<rparr>"

text \<open>The sample environment with a responder that gives the same answer for every pair.\<close>

definition dirmngr_says :: "gpg_error_t \<Rightarrow> env" where
  "dirmngr_says err = sample_env\<lparr>gpgsm_dirmngr_isvalid := (\<lambda>s i ocsp. err)\<rparr>"

definition sample_kh :: keydb_handle where
  "sample_kh = \<lparr>kh_pos = 0, kh_found = None, kh_ephemeral = False\<rparr>"

text \<open>The error of a call that ran out of memory.\<close>

definition enomem :: gpg_error_t where
  "enomem = Err (GPG_ERR_SOURCE 9) (GPG_ERR_CODE 32854)"

text \<open>The sample environment in which no user data can be stored.\<close>

definition failing_write_env :: env where
  "failing_write_env = sample_env\<lparr>set_user_data_rc := (\<lambda>c key. enomem)\<rparr>"

text \<open>
  The sample environment at a time when the sample certificates have expired, with a
  responder that reports every certificate as revoked.
\<close>

definition late_revoked_env :: env where
  "late_revoked_env =
     (dirmngr_says (Err (GPG_ERR_SOURCE 10) GPG_ERR_CERT_REVOKED))
       \<lparr>current_time := ''20400101T000000''\<rparr>"


text \<open>
  Policy files for a certificate with the critical policy 1.2.3: a line with the
  OID 1.2.3 padded with blanks to \<open>n + 5\<close> characters and ended by a newline, and a
  file whose only line is not ended by a newline.
\<close>

definition padded_policy_line :: "nat \<Rightarrow> string" where
  "padded_policy_line n = ''1.2.3'' @ replicate n CHR '' ''"

definition policy_stream :: "string \<Rightarrow> stream" where
  "policy_stream d = \<lparr>f_data = d, f_end = AtEOF\<rparr>"

definition policy_cert :: cert where
  "policy_cert = (sample_cert ''L'' ''A'')\<lparr>cert_policies := (no_error, ''1.2.3:C:'' @ [NL])\<rparr>"

definition policy_env :: "string \<Rightarrow> env" where
  "policy_env d =
     sample_env\<lparr>opt_policy_file := Some ''policies.txt'',
                fopen := (\<lambda>name. Some (policy_stream d))\<rparr>"

text \<open>The sample certificate with another expiration time.\<close>

definition expiring_cert :: "string \<Rightarrow> string \<Rightarrow> string \<Rightarrow> cert" where
  "expiring_cert subject issuer t = (sample_cert subject issuer)\<lparr>cert_not_after := (no_error, t)\<rparr>"

text \<open>
  A chain of three certificates: the leaf \<open>L\<close> expires in 2030, its issuer \<open>A\<close> in
  2025, the root \<open>R\<close> in 2035. The key database holds the root and the issuer.
\<close>

definition three_leaf :: cert where
  "three_leaf = expiring_cert ''L'' ''A'' ''20300101T000000''"

definition three_world :: world where
  "three_world =
     sample_world [expiring_cert ''R'' ''R'' ''20350101T000000'',
                   expiring_cert ''A'' ''R'' ''20250101T000000'']"

text \<open>A sample certificate that is not marked as a CA.\<close>

definition non_ca_cert :: "string \<Rightarrow> string \<Rightarrow> cert" where
  "non_ca_cert subject issuer = (sample_cert subject issuer)\<lparr>cert_is_ca := (no_error, False, 0)\<rparr>"

text \<open>
  A certificate \<open>X\<close> that is not a CA, issued by the root \<open>R\<close>, which is the only
  certificate of the key database and is not on the qualified list.
\<close>

definition regtp_world :: world where
  "regtp_world = sample_world [sample_cert ''R'' ''R'']"

text \<open>
  A certificate that is not self-issued, with serial number 01, whose authority key
  identifier names its own issuer DN and serial number.
\<close>

definition self_aki_cert :: cert where
  "self_aki_cert =
     (sample_cert ''C'' ''I'')
       \<lparr>cert_serial := ''01'', cert_aki := (no_error, None, Some (''I'', ''01''))\<rparr>"

text \<open>
  A chain with \<open>n\<close> certificates below its root: certificate \<open>i\<close> has the subject
  DN \<open>chain_dn i\<close> and is issued by certificate \<open>i + 1\<close>, certificate \<open>n\<close> is the
  self-issued root. The key database holds them all.
\<close>

definition chain_dn :: "nat \<Rightarrow> string" where
  "chain_dn i = replicate (Suc i) CHR ''x''"

definition chain_cert :: "nat \<Rightarrow> nat \<Rightarrow> cert" where
  "chain_cert n i = sample_cert (chain_dn i) (chain_dn (if i < n then Suc i else i))"

definition chain_world :: "nat \<Rightarrow> world" where
  "chain_world n = sample_world (map (chain_cert n) [0..<Suc n])"

text \<open>
  The state in which round \<open>k\<close> of the walk along this chain starts: the copy of
  certificate \<open>k\<close> fetched from the key database is the subject, no flag is set.
\<close>

definition on_chain :: "nat \<Rightarrow> nat \<Rightarrow> vstate \<Rightarrow> bool" where
  "on_chain n k st =
     (vs_subject_cert st = (chain_cert n k)\<lparr>cert_obj := k\<rparr> \<and> vs_depth st = int k
      \<and> \<not> vs_any_expired st \<and> \<not> vs_any_revoked st \<and> \<not> vs_any_no_crl st
      \<and> \<not> vs_any_crl_too_old st \<and> \<not> vs_any_no_policy_match st
      \<and> vs_is_qualified st = - 1 \<and> vs_kh st = sample_kh
      \<and> vs_world st = (chain_world n)\<lparr>w_next_obj := Suc k\<rparr>)"

text \<open>
  The key database holds one certificate, \<open>A\<close>, which expires in 2025 and has no
  issuer DN.
\<close>

definition no_issuer_world :: world where
  "no_issuer_world =
     sample_world [(expiring_cert ''A'' ''R'' ''20250101T000000'')\<lparr>cert_issuer := None\<rparr>]"



section \<open>Properties\<close>

subsection \<open>The bypass of gpgsm\_basic\_cert\_check\<close>

text \<open>
  C10. With the option \<^verbatim>\<open>no_chain_validation\<close> set, \<^verbatim>\<open>gpgsm_basic_cert_check\<close>
  returns 0 for every certificate, whatever the responders and the key database
  hold, and leaves the world as it was: no issuer is looked up, no signature is
  verified. The function has no list mode argument, so the bypass cannot depend on
  it. The chain walker bypasses only outside list mode: there it returns 0 without
  touching the world, while in list mode with the same option a certificate without
  issuer is still rejected with \<open>GPG_ERR_BAD_CERT\<close>.
\<close>

theorem basic_cert_check_bypass:
  "(opt_no_chain_validation e \<longrightarrow> gpgsm_basic_cert_check e w c = (no_error, w))
   \<and> (opt_no_chain_validation e \<longrightarrow>
        gpgsm_validate_chain fuel e w c r False flags
          = Some (no_error, if r then Some [] else None, w))
   \<and> map_option fst
        (gpgsm_validate_chain 1 (sample_env\<lparr>opt_no_chain_validation := True\<rparr>)
           (sample_world []) ((sample_cert ''L'' ''A'')\<lparr>cert_issuer := None\<rparr>) False True 0)
       = Some (gpg_error GPG_ERR_BAD_CERT)"
proof (intro conjI impI)
  assume "opt_no_chain_validation e"
  then show "gpgsm_basic_cert_check e w c = (no_error, w)"
    by (simp add: gpgsm_basic_cert_check_def)
next
  assume "opt_no_chain_validation e"
  then show "gpgsm_validate_chain fuel e w c r False flags
      = Some (no_error, if r then Some [] else None, w)"
    by (simp add: gpgsm_validate_chain_def)
next
  show "map_option fst
        (gpgsm_validate_chain 1 (sample_env\<lparr>opt_no_chain_validation := True\<rparr>)
           (sample_world []) ((sample_cert ''L'' ''A'')\<lparr>cert_issuer := None\<rparr>) False True 0)
       = Some (gpg_error GPG_ERR_BAD_CERT)"
    by (simp add: gpgsm_validate_chain_def sample_env_def sample_cert_def keydb_new_def
        chain_loop.simps chain_step_def initial_vstate_def validate_leave_def)
qed

theorem basic_cert_check_bypass_witness:
  "opt_no_chain_validation (sample_env\<lparr>opt_no_chain_validation := True\<rparr>)
   \<and> gpgsm_basic_cert_check (sample_env\<lparr>opt_no_chain_validation := True\<rparr>)
       (sample_world []) (sample_cert ''L'' ''A'') = (no_error, sample_world [])
   \<and> gpgsm_validate_chain 1 (sample_env\<lparr>opt_no_chain_validation := True\<rparr>)
       (sample_world []) (sample_cert ''L'' ''A'') True False 0
       = Some (no_error, Some [], sample_world [])"
  using basic_cert_check_bypass
    [of "sample_env\<lparr>opt_no_chain_validation := True\<rparr>" "sample_world []"
        "sample_cert ''L'' ''A''" 1 True 0]
  by (simp add: sample_env_def)

subsection \<open>Facts about the loop\<close>

lemma chain_loop_exit:
  "chain_step fuel e lm flags c st = Some (Exit k rc st1)
   \<Longrightarrow> chain_loop fuel e lm flags c st = Some (k, rc, st1)"
  by (subst chain_loop.simps) simp

lemma chain_loop_continue:
  "chain_step fuel e lm flags c st = Some (Continue st1)
   \<Longrightarrow> chain_loop fuel e lm flags c st = chain_loop fuel e lm flags c st1"
  by (subst chain_loop.simps) simp

lemma chain_loop_none:
  "chain_step fuel e lm flags c st = None \<Longrightarrow> chain_loop fuel e lm flags c st = None"
  by (subst chain_loop.simps) simp

lemma state_after_Suc:
  assumes "state_after (Suc k) fuel e lm flags c st0 = Some st"
  obtains st1 where "chain_step fuel e lm flags c st0 = Some (Continue st1)"
    and "state_after k fuel e lm flags c st1 = Some st"
  using assms by (auto split: option.splits step_result.splits)

lemma state_after_loop:
  "state_after k fuel e lm flags c st0 = Some st
   \<Longrightarrow> chain_loop fuel e lm flags c st0 = chain_loop fuel e lm flags c st"
proof (induction k arbitrary: st0)
  case 0
  then show ?case by simp
next
  case (Suc k)
  from Suc.prems obtain st1 where s: "chain_step fuel e lm flags c st0 = Some (Continue st1)"
    and a: "state_after k fuel e lm flags c st1 = Some st"
    by (rule state_after_Suc)
  from chain_loop_continue [OF s] Suc.IH [OF a] show ?case by simp
qed

lemma state_after_depth:
  "state_after k fuel e lm flags c st0 = Some st
   \<Longrightarrow> vs_depth st = vs_depth st0 + int k \<and> (k = 0 \<or> vs_depth st \<le> maxdepth)"
proof (induction k arbitrary: st0)
  case 0
  then show ?case by simp
next
  case (Suc k)
  from Suc.prems obtain st1 where s: "chain_step fuel e lm flags c st0 = Some (Continue st1)"
    and a: "state_after k fuel e lm flags c st1 = Some st"
    by (rule state_after_Suc)
  from chain_step_depth [OF s] Suc.IH [OF a] show ?case by auto
qed

lemma gpg_error_nonzero [simp]: "c \<noteq> GPG_ERR_NO_ERROR \<Longrightarrow> gpg_error c \<noteq> no_error"
  by (simp add: gpg_error_def no_error_def)

lemma validate_leave_keeps_error:
  "rc \<noteq> no_error \<Longrightarrow> fst (validate_leave e w c r rc q x) = rc"
  by (simp add: validate_leave_def split: prod.splits)

lemma check_validity_leave: "check_validity e st = Leave rc st1 \<Longrightarrow> rc \<noteq> no_error"
  by (auto simp: check_validity_def Let_def split: prod.splits if_splits)

lemma node_checks_leave: "node_checks e st = Leave rc st1 \<Longrightarrow> rc \<noteq> no_error"
  by (auto simp: node_checks_def Let_def split: flow.splits if_splits
      dest: check_validity_leave)

lemma root_revocation_exit:
  "root_revocation e flags relax st = Exit k rc st1
   \<Longrightarrow> (k = ByBreak \<and> rc = no_error) \<or> (k = ByLeave \<and> rc \<noteq> no_error)"
  by (auto simp: root_revocation_def split: if_splits prod.splits)

lemma root_branch_exit:
  "root_branch e lm flags c irc relax st = Exit k rc st1
   \<Longrightarrow> (k = ByBreak \<and> rc = no_error) \<or> (k = ByLeave \<and> rc \<noteq> no_error)"
  by (auto simp: root_branch_def split: if_splits prod.splits dest: root_revocation_exit)

lemma hop_issuer_exit:
  "hop_issuer e lm flags ic st = Exit k rc st1 \<Longrightarrow> k = ByLeave \<and> rc \<noteq> no_error"
  by (auto simp: hop_issuer_def split: if_splits prod.splits)

lemma hop_exit:
  "hop fuel e lm flags issuer st = Some (Exit k rc st1) \<Longrightarrow> k = ByLeave \<and> rc \<noteq> no_error"
  by (auto simp: hop_def Let_def split: if_splits prod.splits option.splits
      dest: hop_issuer_exit)

lemma chain_step_exit:
  assumes "chain_step fuel e lm flags c st = Some (Exit k rc st1)"
  shows "(k = ByBreak \<and> rc = no_error) \<or> (k = ByLeave \<and> rc \<noteq> no_error)"
  using assms
  by (auto simp: chain_step_def split: option.splits flow.splits if_splits prod.splits
      dest: node_checks_leave root_branch_exit hop_exit)

text \<open>
  The loop ends by \<^verbatim>\<open>break\<close> only with \<open>rc\<close> equal to 0, and jumps to
  \<^verbatim>\<open>leave\<close> only with \<open>rc\<close> different from 0.
\<close>

lemma chain_loop_result:
  "chain_loop fuel e lm flags c st = Some (k, rc, st1)
   \<Longrightarrow> (k = ByBreak \<and> rc = no_error) \<or> (k = ByLeave \<and> rc \<noteq> no_error)"
proof (induction fuel e lm flags c st rule: chain_loop.induct)
  case (1 fuel e lm flags c st)
  show ?case
  proof (cases "chain_step fuel e lm flags c st")
    case None
    with "1.prems" chain_loop_none [OF None] show ?thesis by simp
  next
    case (Some r)
    show ?thesis
    proof (cases r)
      case (Exit k' rc' st')
      with Some "1.prems" chain_loop_exit [of fuel e lm flags c st k' rc' st']
      have "k' = k" "rc' = rc" by auto
      with Exit Some chain_step_exit show ?thesis by blast
    next
      case (Continue st')
      with Some "1.prems" chain_loop_continue [of fuel e lm flags c st st']
      have "chain_loop fuel e lm flags c st' = Some (k, rc, st1)" by simp
      with "1.IH" Some Continue show ?thesis by blast
    qed
  qed
qed

text \<open>
  What the function returns when the loop, started in the initial state, ends in the
  state \<open>st\<close>.
\<close>

lemma validate_chain_unfold:
  assumes "keydb_new e = Some kh"
    and "\<not> (opt_no_chain_validation e \<and> \<not> lm)"
    and "chain_loop fuel e lm flags c (initial_vstate w kh c) = Some (k, rc, st)"
  shows "gpgsm_validate_chain fuel e w c r lm flags
      = Some (validate_leave e (vs_world st) c r
                (case k of ByBreak \<Rightarrow> chain_verdict rc st | ByLeave \<Rightarrow> rc)
                (vs_is_qualified st) (vs_exptime st))"
proof -
  from assms(2) have "(opt_no_chain_validation e \<and> \<not> lm) = False" by simp
  with assms(1,3) show ?thesis
    by (simp only: gpgsm_validate_chain_def if_False option.case prod.case)
qed

text \<open>
  A return code with which some round of the loop jumps to \<^verbatim>\<open>leave\<close> is the
  return value of the function.
\<close>

lemma leave_is_returned:
  assumes kh: "keydb_new e = Some kh"
    and nb: "\<not> (opt_no_chain_validation e \<and> \<not> lm)"
    and sa: "state_after k fuel e lm flags c (initial_vstate w kh c) = Some st"
    and lr: "leave_rc (chain_step fuel e lm flags c st) = Some rc"
  shows "map_option fst (gpgsm_validate_chain fuel e w c r lm flags) = Some rc"
proof -
  from lr obtain st1 where s: "chain_step fuel e lm flags c st = Some (Exit ByLeave rc st1)"
    by (auto simp: leave_rc_def split: option.splits step_result.splits exit_kind.splits)
  from chain_step_exit [OF s] have nz: "rc \<noteq> no_error" by simp
  from state_after_loop [OF sa] chain_loop_exit [OF s]
  have "chain_loop fuel e lm flags c (initial_vstate w kh c) = Some (ByLeave, rc, st1)" by simp
  from validate_chain_unfold [OF kh nb this] validate_leave_keeps_error [OF nz]
  show ?thesis by simp
qed

subsection \<open>The revocation gate\<close>

lemma root_revocation_fatal:
  assumes "\<not> odd flags" and "\<not> opt_no_trusted_cert_crl_check e" and "\<not> relax"
    and "fst (is_cert_still_valid e (vs_world st) (vs_subject_cert st) (vs_subject_cert st)
                (rev_flags st)) \<noteq> no_error"
  shows "leave_rc (Some (root_revocation e flags relax st))
      = Some (fst (is_cert_still_valid e (vs_world st) (vs_subject_cert st)
                     (vs_subject_cert st) (rev_flags st)))"
  using assms by (auto simp: root_revocation_def leave_rc_def split: prod.splits)

lemma edge_revocation_fatal:
  assumes "\<not> odd flags"
    and "issuer_allowed e (vs_world st) ic = (no_error, chainlen, ri, w1)"
    and "\<not> (case ri of None \<Rightarrow> False
              | Some (irc, rlx) \<Rightarrow> opt_no_trusted_cert_crl_check e \<or> (irc = no_error \<and> rlx))"
    and "\<not> (0 \<le> chainlen \<and> chainlen < vs_depth st - 1)"
    and "lm \<or> gpgsm_cert_use_cert_p e ic = no_error"
    and "fst (is_cert_still_valid e w1 (vs_subject_cert st) ic (rev_flags st)) \<noteq> no_error"
  shows "leave_rc (Some (hop_issuer e lm flags ic st))
      = Some (fst (is_cert_still_valid e w1 (vs_subject_cert st) ic (rev_flags st)))"
proof -
  obtain rc x where v: "is_cert_still_valid e w1 (vs_subject_cert st) ic (rev_flags st) = (rc, x)"
    by (cases "is_cert_still_valid e w1 (vs_subject_cert st) ic (rev_flags st)") blast
  with assms have "edge_revocation e flags ri ic (st\<lparr>vs_world := w1\<rparr>)
      = (rc, set_rev (st\<lparr>vs_world := w1\<rparr>) x)" and "rc \<noteq> no_error"
    by (auto simp: edge_revocation_def rev_flags_def)
  with assms v show ?thesis
    by (auto simp: hop_issuer_def leave_rc_def)
qed

text \<open>
  C4. \<^verbatim>\<open>is_cert_still_valid\<close> returns 0 and leaves flags and world alone when CRL
  checks are disabled and OCSP is not used. Otherwise it asks the responder:
  \<open>GPG_ERR_CERT_REVOKED\<close> sets \<open>any_revoked\<close>, has \<open>VALIDITY_REVOKED\<close> stored in
  the key database for the subject (the flag is there afterwards if the database has
  the certificate; the result of storing is dropped) and returns 0;
  \<open>GPG_ERR_NO_CRL_KNOWN\<close> sets \<open>any_no_crl\<close> and returns 0; \<open>GPG_ERR_CRL_TOO_OLD\<close>
  sets \<open>any_crl_too_old\<close> and returns 0; every other error is returned as it is,
  with flags and world unchanged. Such an error makes the round jump to
  \<^verbatim>\<open>leave\<close> with it, at the root and at an edge, and a return code with which a
  round jumps to \<^verbatim>\<open>leave\<close> is what \<^verbatim>\<open>gpgsm_validate_chain\<close> returns.
\<close>

theorem revocation_gate:
  "(opt_no_crl_check e \<and> \<not> ctrl_use_ocsp e \<longrightarrow>
      is_cert_still_valid e w s i (a, b, c) = (no_error, (a, b, c), w))
   \<and> (\<not> opt_no_crl_check e \<or> ctrl_use_ocsp e \<longrightarrow>
       (let err = gpgsm_dirmngr_isvalid e s i (ctrl_use_ocsp e);
            res = is_cert_still_valid e w s i (a, b, c)
        in (err = no_error \<longrightarrow> res = (no_error, (a, b, c), w))
         \<and> (err \<noteq> no_error \<and> gpg_err_code err = GPG_ERR_CERT_REVOKED \<longrightarrow>
              res = (no_error, (True, b, c),
                     snd (keydb_set_cert_flags w s KEYBOX_FLAG_VALIDITY 0 VALIDITY_REVOKED)))
         \<and> (err \<noteq> no_error \<and> gpg_err_code err = GPG_ERR_NO_CRL_KNOWN \<longrightarrow>
              res = (no_error, (a, True, c), w))
         \<and> (err \<noteq> no_error \<and> gpg_err_code err = GPG_ERR_CRL_TOO_OLD \<longrightarrow>
              res = (no_error, (a, b, True), w))
         \<and> (err \<noteq> no_error \<and> gpg_err_code err \<noteq> GPG_ERR_CERT_REVOKED
              \<and> gpg_err_code err \<noteq> GPG_ERR_NO_CRL_KNOWN
              \<and> gpg_err_code err \<noteq> GPG_ERR_CRL_TOO_OLD \<longrightarrow>
              res = (err, (a, b, c), w))))
   \<and> (list_ex (\<lambda>d. cert_fpr d = cert_fpr s) (keydb_all w) \<longrightarrow>
        w_cert_flags (snd (keydb_set_cert_flags w s KEYBOX_FLAG_VALIDITY 0 VALIDITY_REVOKED))
          (cert_fpr s, KEYBOX_FLAG_VALIDITY, 0) = Some VALIDITY_REVOKED)
   \<and> (\<not> odd flags \<and> \<not> opt_no_trusted_cert_crl_check e \<and> \<not> relax
        \<and> fst (is_cert_still_valid e (vs_world st) (vs_subject_cert st) (vs_subject_cert st)
                 (rev_flags st)) \<noteq> no_error \<longrightarrow>
        leave_rc (Some (root_revocation e flags relax st))
          = Some (fst (is_cert_still_valid e (vs_world st) (vs_subject_cert st)
                         (vs_subject_cert st) (rev_flags st))))
   \<and> (\<not> odd flags
        \<and> issuer_allowed e (vs_world st) ic = (no_error, chainlen, ri, w1)
        \<and> \<not> (case ri of None \<Rightarrow> False
                | Some (irc, rlx) \<Rightarrow>
                    opt_no_trusted_cert_crl_check e \<or> (irc = no_error \<and> rlx))
        \<and> \<not> (0 \<le> chainlen \<and> chainlen < vs_depth st - 1)
        \<and> (lm \<or> gpgsm_cert_use_cert_p e ic = no_error)
        \<and> fst (is_cert_still_valid e w1 (vs_subject_cert st) ic (rev_flags st)) \<noteq> no_error
        \<longrightarrow>
        leave_rc (Some (hop_issuer e lm flags ic st))
          = Some (fst (is_cert_still_valid e w1 (vs_subject_cert st) ic (rev_flags st))))
   \<and> (keydb_new e = Some kh \<and> \<not> (opt_no_chain_validation e \<and> \<not> lm)
        \<and> state_after k fuel e lm flags c0 (initial_vstate w0 kh c0) = Some st
        \<and> leave_rc (chain_step fuel e lm flags c0 st) = Some rc \<longrightarrow>
        map_option fst (gpgsm_validate_chain fuel e w0 c0 r lm flags) = Some rc)"
proof -
  have 1: "opt_no_crl_check e \<and> \<not> ctrl_use_ocsp e \<longrightarrow>
      is_cert_still_valid e w s i (a, b, c) = (no_error, (a, b, c), w)"
    by (simp add: is_cert_still_valid_def)
  have 2: "\<not> opt_no_crl_check e \<or> ctrl_use_ocsp e \<longrightarrow>
       (let err = gpgsm_dirmngr_isvalid e s i (ctrl_use_ocsp e);
            res = is_cert_still_valid e w s i (a, b, c)
        in (err = no_error \<longrightarrow> res = (no_error, (a, b, c), w))
         \<and> (err \<noteq> no_error \<and> gpg_err_code err = GPG_ERR_CERT_REVOKED \<longrightarrow>
              res = (no_error, (True, b, c),
                     snd (keydb_set_cert_flags w s KEYBOX_FLAG_VALIDITY 0 VALIDITY_REVOKED)))
         \<and> (err \<noteq> no_error \<and> gpg_err_code err = GPG_ERR_NO_CRL_KNOWN \<longrightarrow>
              res = (no_error, (a, True, c), w))
         \<and> (err \<noteq> no_error \<and> gpg_err_code err = GPG_ERR_CRL_TOO_OLD \<longrightarrow>
              res = (no_error, (a, b, True), w))
         \<and> (err \<noteq> no_error \<and> gpg_err_code err \<noteq> GPG_ERR_CERT_REVOKED
              \<and> gpg_err_code err \<noteq> GPG_ERR_NO_CRL_KNOWN
              \<and> gpg_err_code err \<noteq> GPG_ERR_CRL_TOO_OLD \<longrightarrow>
              res = (err, (a, b, c), w)))"
    by (auto simp: is_cert_still_valid_def Let_def)
  have 3: "list_ex (\<lambda>d. cert_fpr d = cert_fpr s) (keydb_all w) \<longrightarrow>
        w_cert_flags (snd (keydb_set_cert_flags w s KEYBOX_FLAG_VALIDITY 0 VALIDITY_REVOKED))
          (cert_fpr s, KEYBOX_FLAG_VALIDITY, 0) = Some VALIDITY_REVOKED"
    by (simp add: keydb_set_cert_flags_def)
  from 1 2 3 show ?thesis
    using root_revocation_fatal [of flags e relax st]
      edge_revocation_fatal [of flags e st ic chainlen ri w1 lm]
      leave_is_returned [of e kh lm k fuel flags c0 w0 st rc r]
    by blast
qed

theorem revocation_gate_witness:
  "is_cert_still_valid (sample_env\<lparr>opt_no_crl_check := True\<rparr>)
       (sample_world [sample_cert ''R'' ''R'']) (sample_cert ''A'' ''R'') (sample_cert ''R'' ''R'')
       (False, False, False)
     = (no_error, (False, False, False), sample_world [sample_cert ''R'' ''R''])
   \<and> fst (is_cert_still_valid (dirmngr_says (Err (GPG_ERR_SOURCE 10) GPG_ERR_CERT_REVOKED))
           (sample_world [sample_cert ''R'' ''R'']) (sample_cert ''R'' ''R'')
           (sample_cert ''R'' ''R'') (False, False, False)) = no_error
   \<and> fst (snd (is_cert_still_valid (dirmngr_says (Err (GPG_ERR_SOURCE 10) GPG_ERR_CERT_REVOKED))
           (sample_world [sample_cert ''R'' ''R'']) (sample_cert ''R'' ''R'')
           (sample_cert ''R'' ''R'') (False, False, False))) = (True, False, False)
   \<and> w_cert_flags (snd (keydb_set_cert_flags (sample_world [sample_cert ''R'' ''R''])
           (sample_cert ''R'' ''R'') KEYBOX_FLAG_VALIDITY 0 VALIDITY_REVOKED))
         (''R'', KEYBOX_FLAG_VALIDITY, 0) = Some VALIDITY_REVOKED
   \<and> is_cert_still_valid (dirmngr_says (Err (GPG_ERR_SOURCE 10) GPG_ERR_NO_CRL_KNOWN))
       (sample_world []) (sample_cert ''A'' ''R'') (sample_cert ''R'' ''R'') (False, False, False)
     = (no_error, (False, True, False), sample_world [])
   \<and> is_cert_still_valid (dirmngr_says (Err (GPG_ERR_SOURCE 10) GPG_ERR_CRL_TOO_OLD))
       (sample_world []) (sample_cert ''A'' ''R'') (sample_cert ''R'' ''R'') (False, False, False)
     = (no_error, (False, False, True), sample_world [])
   \<and> is_cert_still_valid (dirmngr_says (Err (GPG_ERR_SOURCE 10) GPG_ERR_GENERAL))
       (sample_world []) (sample_cert ''A'' ''R'') (sample_cert ''R'' ''R'') (False, False, False)
     = (Err (GPG_ERR_SOURCE 10) GPG_ERR_GENERAL, (False, False, False), sample_world [])
   \<and> leave_rc (Some (root_revocation (dirmngr_says (Err (GPG_ERR_SOURCE 10) GPG_ERR_GENERAL))
         0 False (initial_vstate (sample_world []) sample_kh (sample_cert ''R'' ''R''))))
     = Some (Err (GPG_ERR_SOURCE 10) GPG_ERR_GENERAL)
   \<and> leave_rc (Some (hop_issuer (dirmngr_says (Err (GPG_ERR_SOURCE 10) GPG_ERR_GENERAL))
         False 0 (sample_cert ''R'' ''R'')
         (initial_vstate (sample_world []) sample_kh (sample_cert ''A'' ''R''))))
     = Some (Err (GPG_ERR_SOURCE 10) GPG_ERR_GENERAL)
   \<and> map_option fst
        (gpgsm_validate_chain 1 (dirmngr_says (Err (GPG_ERR_SOURCE 10) GPG_ERR_GENERAL))
           (sample_world []) (sample_cert ''R'' ''R'') True False 0)
     = Some (Err (GPG_ERR_SOURCE 10) GPG_ERR_GENERAL)"
proof -
  let ?g = "Err (GPG_ERR_SOURCE 10) GPG_ERR_GENERAL"
  let ?e = "dirmngr_says ?g"
  let ?R = "sample_cert ''R'' ''R''"
  let ?A = "sample_cert ''A'' ''R''"
  let ?st = "initial_vstate (sample_world []) sample_kh ?R"
  let ?sa = "initial_vstate (sample_world []) sample_kh ?A"
  note defs = dirmngr_says_def sample_env_def sample_world_def sample_cert_def
    is_cert_still_valid_def keydb_set_cert_flags_def keydb_all_def no_error_def gpg_error_def
    initial_vstate_def rev_flags_def
  have skip: "is_cert_still_valid (sample_env\<lparr>opt_no_crl_check := True\<rparr>)
       (sample_world [?R]) ?A ?R (False, False, False)
     = (no_error, (False, False, False), sample_world [?R])"
    using revocation_gate [where e = "sample_env\<lparr>opt_no_crl_check := True\<rparr>"
        and w = "sample_world [?R]" and s = ?A and i = ?R and a = False and b = False
        and c = False]
    by (simp add: sample_env_def)
  have rev: "is_cert_still_valid (dirmngr_says (Err (GPG_ERR_SOURCE 10) GPG_ERR_CERT_REVOKED))
           (sample_world [?R]) ?R ?R (False, False, False)
       = (no_error, (True, False, False),
          snd (keydb_set_cert_flags (sample_world [?R]) ?R KEYBOX_FLAG_VALIDITY 0
                 VALIDITY_REVOKED))"
    using revocation_gate
      [where e = "dirmngr_says (Err (GPG_ERR_SOURCE 10) GPG_ERR_CERT_REVOKED)"
        and w = "sample_world [?R]" and s = ?R and i = ?R and a = False and b = False
        and c = False]
    by (simp add: dirmngr_says_def sample_env_def no_error_def Let_def)
  have flag: "w_cert_flags (snd (keydb_set_cert_flags (sample_world [?R]) ?R
           KEYBOX_FLAG_VALIDITY 0 VALIDITY_REVOKED))
         (''R'', KEYBOX_FLAG_VALIDITY, 0) = Some VALIDITY_REVOKED"
    using revocation_gate [where w = "sample_world [?R]" and s = ?R]
    by (simp add: sample_world_def sample_cert_def keydb_all_def)
  have nocrl: "is_cert_still_valid (dirmngr_says (Err (GPG_ERR_SOURCE 10) GPG_ERR_NO_CRL_KNOWN))
       (sample_world []) ?A ?R (False, False, False)
     = (no_error, (False, True, False), sample_world [])"
    using revocation_gate
      [where e = "dirmngr_says (Err (GPG_ERR_SOURCE 10) GPG_ERR_NO_CRL_KNOWN)"
        and w = "sample_world []" and s = ?A and i = ?R and a = False and b = False
        and c = False]
    by (simp add: dirmngr_says_def sample_env_def no_error_def Let_def)
  have old: "is_cert_still_valid (dirmngr_says (Err (GPG_ERR_SOURCE 10) GPG_ERR_CRL_TOO_OLD))
       (sample_world []) ?A ?R (False, False, False)
     = (no_error, (False, False, True), sample_world [])"
    using revocation_gate
      [where e = "dirmngr_says (Err (GPG_ERR_SOURCE 10) GPG_ERR_CRL_TOO_OLD)"
        and w = "sample_world []" and s = ?A and i = ?R and a = False and b = False
        and c = False]
    by (simp add: dirmngr_says_def sample_env_def no_error_def Let_def)
  have other: "is_cert_still_valid ?e (sample_world []) ?A ?R (False, False, False)
     = (?g, (False, False, False), sample_world [])"
    using revocation_gate
      [where e = ?e and w = "sample_world []" and s = ?A and i = ?R and a = False
        and b = False and c = False]
    by (simp add: dirmngr_says_def sample_env_def no_error_def Let_def)
  have gr: "fst (is_cert_still_valid ?e (vs_world ?st) (vs_subject_cert ?st)
               (vs_subject_cert ?st) (rev_flags ?st)) = ?g"
    by (simp add: defs)
  have root: "leave_rc (Some (root_revocation ?e 0 False ?st)) = Some ?g"
    using revocation_gate [where e = ?e and flags = 0 and relax = False and st = ?st] gr
    by (simp add: dirmngr_says_def sample_env_def no_error_def)
  have ia: "issuer_allowed ?e (vs_world ?sa) ?R = (no_error, - 1, None, sample_world [])"
    by (simp add: issuer_allowed_def allowed_ca_def defs)
  have ge: "fst (is_cert_still_valid ?e (sample_world []) (vs_subject_cert ?sa) ?R
               (rev_flags ?sa)) = ?g"
    by (simp add: defs)
  have edge: "leave_rc (Some (hop_issuer ?e False 0 ?R ?sa)) = Some ?g"
    using revocation_gate [where e = ?e and flags = 0 and st = ?sa and ic = ?R
        and chainlen = "- 1" and ri = None and ?w1.0 = "sample_world []" and lm = False] ia ge
    by (simp add: dirmngr_says_def sample_env_def no_error_def)
  have step: "leave_rc (chain_step 1 ?e False 0 ?R ?st) = Some ?g"
    by (simp add: chain_step_def node_checks_def check_validity_def unknown_criticals_def
        check_cert_policy_def root_branch_def allowed_ca_def root_qualified_def
        root_trust_def root_revocation_def ksba_cert_get_user_data_def
        ksba_cert_set_user_data_def leave_rc_def qualified_key_def set_rev_def Let_def defs)
  have whole: "map_option fst (gpgsm_validate_chain 1 ?e (sample_world []) ?R True False 0)
      = Some ?g"
    using revocation_gate [where e = ?e and kh = sample_kh and lm = False and k = 0
        and fuel = 1 and flags = 0 and ?c0.0 = ?R and ?w0.0 = "sample_world []" and st = ?st
        and rc = ?g and r = True] step
    by (simp add: dirmngr_says_def sample_env_def keydb_new_def sample_kh_def)
  from skip rev flag nocrl old other root edge whole show ?thesis by simp
qed

subsection \<open>The final verdict\<close>

lemmas walk_defs =
  chain_step_def node_checks_def check_validity_def unknown_criticals_def
  check_cert_policy_def root_branch_def allowed_ca_def root_qualified_def root_trust_def
  root_revocation_def is_cert_still_valid_def keydb_set_cert_flags_def keydb_all_def
  ksba_cert_get_user_data_def ksba_cert_set_user_data_def qualified_key_def
  qualified_byte_def rev_flags_def set_rev_def initial_vstate_def Let_def

lemmas sample_defs =
  sample_env_def sample_world_def sample_cert_def sample_kh_def no_error_def gpg_error_def

text \<open>
  A trusted root as the only certificate of the chain, in an environment where user
  data cannot be stored: the loop ends by \<^verbatim>\<open>break\<close> with no flag set.
\<close>

lemma failing_write_walk:
  "chain_loop 1 failing_write_env True 0 (sample_cert ''R'' ''R'')
       (initial_vstate (sample_world [sample_cert ''R'' ''R'']) sample_kh
          (sample_cert ''R'' ''R''))
     = Some (ByBreak, no_error,
         \<lparr>vs_subject_cert = sample_cert ''R'' ''R'', vs_depth = 0,
          vs_exptime = ''20300101T000000'', vs_any_expired = False,
          vs_any_revoked = False, vs_any_no_crl = False, vs_any_crl_too_old = False,
          vs_any_no_policy_match = False, vs_is_qualified = 0, vs_kh = sample_kh,
          vs_world = sample_world [sample_cert ''R'' ''R''],
          vs_dated = [sample_cert ''R'' ''R'']\<rparr>)"
  by (simp add: chain_loop.simps failing_write_env_def enomem_def walk_defs sample_defs)

text \<open>
  C9. When the loop has ended with the qualified signature status known, the function
  returns the result of the validation if that is an error, and otherwise the result
  of writing the status, one byte, as user data \<open>is_qualified\<close> of the certificate
  given to the function: the error of the write if it fails, 0 if it succeeds.
\<close>

theorem qualified_write_error:
  assumes "keydb_new e = Some kh"
    and "\<not> (opt_no_chain_validation e \<and> \<not> lm)"
    and "chain_loop fuel e lm flags c (initial_vstate w kh c) = Some (k, rc, st)"
    and "vs_is_qualified st \<noteq> - 1"
  shows "map_option fst (gpgsm_validate_chain fuel e w c r lm flags)
      = Some (let v = (case k of ByBreak \<Rightarrow> chain_verdict rc st | ByLeave \<Rightarrow> rc);
                  err = fst (ksba_cert_set_user_data e (vs_world st) c qualified_key
                               [qualified_byte (vs_is_qualified st)])
              in if v \<noteq> no_error then v else err)"
  using validate_chain_unfold [OF assms(1,2,3)] assms(4)
  by (simp add: validate_leave_def Let_def split: prod.splits)

theorem qualified_write_error_witness:
  "keydb_new failing_write_env = Some sample_kh
   \<and> \<not> (opt_no_chain_validation failing_write_env \<and> \<not> True)
   \<and> fst (ksba_cert_set_user_data failing_write_env (sample_world [sample_cert ''R'' ''R''])
            (sample_cert ''R'' ''R'') qualified_key [qualified_byte 0]) = enomem
   \<and> map_option fst
        (gpgsm_validate_chain 1 failing_write_env (sample_world [sample_cert ''R'' ''R''])
           (sample_cert ''R'' ''R'') False True 0)
      = Some enomem"
proof -
  have kh: "keydb_new failing_write_env = Some sample_kh"
    by (simp add: keydb_new_def failing_write_env_def sample_env_def sample_kh_def)
  have nb: "\<not> (opt_no_chain_validation failing_write_env \<and> \<not> True)" by simp
  have wr: "fst (ksba_cert_set_user_data failing_write_env
                   (sample_world [sample_cert ''R'' ''R'']) (sample_cert ''R'' ''R'')
                   qualified_key [qualified_byte 0]) = enomem"
    by (simp add: ksba_cert_set_user_data_def failing_write_env_def enomem_def no_error_def)
  from qualified_write_error [OF kh nb failing_write_walk, of False] wr
  have "map_option fst
        (gpgsm_validate_chain 1 failing_write_env (sample_world [sample_cert ''R'' ''R''])
           (sample_cert ''R'' ''R'') False True 0) = Some enomem"
    by (simp add: chain_verdict_def)
  with kh nb wr show ?thesis by simp
qed

text \<open>
  C1, as the code has it. When the loop has ended by \<^verbatim>\<open>break\<close>, the function
  returns \<open>GPG_ERR_CERT_REVOKED\<close> if \<open>any_revoked\<close> is set, else
  \<open>GPG_ERR_CERT_EXPIRED\<close> if \<open>any_expired\<close>, else \<open>GPG_ERR_NO_CRL_KNOWN\<close> if
  \<open>any_no_crl\<close>, else \<open>GPG_ERR_CRL_TOO_OLD\<close> if \<open>any_crl_too_old\<close>, else
  \<open>GPG_ERR_NO_POLICY_MATCH\<close> if \<open>any_no_policy_match\<close>; with no flag set it returns
  0 unless the qualified signature status is known and writing it as user data of
  the certificate fails, and then it returns the error of that write.
\<close>

theorem chain_verdict_priority:
  assumes "keydb_new e = Some kh"
    and "\<not> (opt_no_chain_validation e \<and> \<not> lm)"
    and "chain_loop fuel e lm flags c (initial_vstate w kh c) = Some (ByBreak, rc, st)"
  shows "map_option fst (gpgsm_validate_chain fuel e w c r lm flags)
      = Some (if vs_any_revoked st then gpg_error GPG_ERR_CERT_REVOKED
              else if vs_any_expired st then gpg_error GPG_ERR_CERT_EXPIRED
              else if vs_any_no_crl st then gpg_error GPG_ERR_NO_CRL_KNOWN
              else if vs_any_crl_too_old st then gpg_error GPG_ERR_CRL_TOO_OLD
              else if vs_any_no_policy_match st then gpg_error GPG_ERR_NO_POLICY_MATCH
              else if vs_is_qualified st \<noteq> - 1
              then fst (ksba_cert_set_user_data e (vs_world st) c qualified_key
                          [qualified_byte (vs_is_qualified st)])
              else no_error)"
proof -
  from chain_loop_result [OF assms(3)] have "rc = no_error" by simp
  with validate_chain_unfold [OF assms] show ?thesis
    by (simp add: validate_leave_def chain_verdict_def split: prod.splits)
qed

theorem chain_verdict_priority_witness:
  "keydb_new late_revoked_env = Some sample_kh
   \<and> \<not> (opt_no_chain_validation late_revoked_env \<and> \<not> True)
   \<and> map_option (\<lambda>(k, rc, st). (k, rc, vs_any_revoked st, vs_any_expired st))
        (chain_loop 1 late_revoked_env True 0 (sample_cert ''R'' ''R'')
           (initial_vstate (sample_world []) sample_kh (sample_cert ''R'' ''R'')))
      = Some (ByBreak, no_error, True, True)
   \<and> map_option fst
        (gpgsm_validate_chain 1 late_revoked_env (sample_world []) (sample_cert ''R'' ''R'')
           False True 0)
      = Some (gpg_error GPG_ERR_CERT_REVOKED)"
proof -
  have kh: "keydb_new late_revoked_env = Some sample_kh"
    by (simp add: keydb_new_def late_revoked_env_def dirmngr_says_def sample_env_def
        sample_kh_def)
  have nb: "\<not> (opt_no_chain_validation late_revoked_env \<and> \<not> True)" by simp
  have ev: "map_option (\<lambda>(k, rc, st). (k, rc, vs_any_revoked st, vs_any_expired st))
        (chain_loop 1 late_revoked_env True 0 (sample_cert ''R'' ''R'')
           (initial_vstate (sample_world []) sample_kh (sample_cert ''R'' ''R'')))
      = Some (ByBreak, no_error, True, True)"
    by (simp add: chain_loop.simps late_revoked_env_def dirmngr_says_def walk_defs
        sample_defs)
  then obtain st where
    l: "chain_loop 1 late_revoked_env True 0 (sample_cert ''R'' ''R'')
          (initial_vstate (sample_world []) sample_kh (sample_cert ''R'' ''R''))
        = Some (ByBreak, no_error, st)"
    and f: "vs_any_revoked st"
    by auto
  from chain_verdict_priority [OF kh nb l, of False] f
  have "map_option fst
        (gpgsm_validate_chain 1 late_revoked_env (sample_world []) (sample_cert ''R'' ''R'')
           False True 0)
      = Some (gpg_error GPG_ERR_CERT_REVOKED)"
    by simp
  with kh nb ev show ?thesis by simp
qed

text \<open>
  C1 as stated fails: a trusted root as the whole chain, no flag set when the loop
  ends by \<^verbatim>\<open>break\<close>, and the function returns the error of the failed write of
  \<open>is_qualified\<close> instead of 0.
\<close>

theorem chain_verdict_priority_counterexample:
  "chain_loop 1 failing_write_env True 0 (sample_cert ''R'' ''R'')
       (initial_vstate (sample_world [sample_cert ''R'' ''R'']) sample_kh
          (sample_cert ''R'' ''R''))
     = Some (ByBreak, no_error,
         \<lparr>vs_subject_cert = sample_cert ''R'' ''R'', vs_depth = 0,
          vs_exptime = ''20300101T000000'', vs_any_expired = False,
          vs_any_revoked = False, vs_any_no_crl = False, vs_any_crl_too_old = False,
          vs_any_no_policy_match = False, vs_is_qualified = 0, vs_kh = sample_kh,
          vs_world = sample_world [sample_cert ''R'' ''R''],
          vs_dated = [sample_cert ''R'' ''R'']\<rparr>)
   \<and> map_option fst
        (gpgsm_validate_chain 1 failing_write_env (sample_world [sample_cert ''R'' ''R''])
           (sample_cert ''R'' ''R'') False True 0)
      = Some enomem
   \<and> enomem \<noteq> no_error"
proof -
  have kh: "keydb_new failing_write_env = Some sample_kh"
    by (simp add: keydb_new_def failing_write_env_def sample_env_def sample_kh_def)
  have nb: "\<not> (opt_no_chain_validation failing_write_env \<and> \<not> True)" by simp
  from validate_chain_unfold [OF kh nb failing_write_walk, of False]
  have "map_option fst
        (gpgsm_validate_chain 1 failing_write_env (sample_world [sample_cert ''R'' ''R''])
           (sample_cert ''R'' ''R'') False True 0)
      = Some enomem"
    by (simp add: validate_leave_def chain_verdict_def ksba_cert_set_user_data_def
        failing_write_env_def enomem_def no_error_def)
  with failing_write_walk show ?thesis by (simp add: enomem_def no_error_def)
qed

subsection \<open>The self-signature of a root\<close>



text \<open>Nothing but the two signature checks reads the field \<open>gpgsm_check_cert_sig\<close>.\<close>

lemma sig_find_up_external [simp]:
  "find_up_external (e\<lparr>gpgsm_check_cert_sig := f\<rparr>) w kh issuer keyid
     = find_up_external e w kh issuer keyid"
  by (simp add: find_up_external_def cong: prod.case_cong option.case_cong if_cong sum.case_cong flow.case_cong)

lemma sig_find_up_aki [simp]:
  "find_up_aki (e\<lparr>gpgsm_check_cert_sig := f\<rparr>) w kh c issuer fn
     = find_up_aki e w kh c issuer fn"
  by (simp add: find_up_aki_def cong: prod.case_cong option.case_cong if_cong sum.case_cong flow.case_cong)

lemma sig_find_up [simp]:
  "find_up (e\<lparr>gpgsm_check_cert_sig := f\<rparr>) w kh c issuer fn = find_up e w kh c issuer fn"
  by (simp add: find_up_def cong: prod.case_cong option.case_cong if_cong sum.case_cong flow.case_cong)

lemma sig_walk [simp]:
  "gpgsm_walk_cert_chain (e\<lparr>gpgsm_check_cert_sig := f\<rparr>) w c = gpgsm_walk_cert_chain e w c"
  by (simp add: gpgsm_walk_cert_chain_def keydb_new_def cong: prod.case_cong option.case_cong if_cong sum.case_cong flow.case_cong)

lemma sig_regtp_walk [simp]:
  "regtp_walk (e\<lparr>gpgsm_check_cert_sig := f\<rparr>) w rc c array = regtp_walk e w rc c array"
proof (induction e w rc c array rule: regtp_walk.induct)
  case (1 e w rc c array)
  show ?case
  proof (cases "length array < 4")
    case False
    then show ?thesis by (simp add: regtp_walk.simps)
  next
    case True
    show ?thesis
    proof (cases "gpgsm_walk_cert_chain e w c")
      case (Pair res w1)
      show ?thesis
      proof (cases res)
        case (Inl rc1)
        with Pair True show ?thesis
          by (simp add: regtp_walk.simps [of e] regtp_walk.simps [of "e\<lparr>gpgsm_check_cert_sig := f\<rparr>"])
      next
        case (Inr nxt)
        from "1.IH" True Pair Inr
        have "regtp_walk (e\<lparr>gpgsm_check_cert_sig := f\<rparr>) w1 no_error nxt (array @ [nxt])
            = regtp_walk e w1 no_error nxt (array @ [nxt])"
          by auto
        with Pair True Inr show ?thesis
          by (simp add: regtp_walk.simps [of e w rc c array]
              regtp_walk.simps [of "e\<lparr>gpgsm_check_cert_sig := f\<rparr>" w rc c array])
      qed
    qed
  qed
qed

lemma sig_set_user_data [simp]:
  "ksba_cert_set_user_data (e\<lparr>gpgsm_check_cert_sig := f\<rparr>) w c key d
     = ksba_cert_set_user_data e w c key d"
  by (simp add: ksba_cert_set_user_data_def)

lemma sig_allowed_ca [simp]:
  "allowed_ca (e\<lparr>gpgsm_check_cert_sig := f\<rparr>) w c = allowed_ca e w c"
  by (simp add: allowed_ca_def get_regtp_ca_info_def regtp_leave_def regtp_release_def cong: prod.case_cong option.case_cong if_cong sum.case_cong flow.case_cong)

lemma sig_node_checks [simp]:
  "node_checks (e\<lparr>gpgsm_check_cert_sig := f\<rparr>) st = node_checks e st"
  by (simp add: node_checks_def check_validity_def check_cert_policy_def cong: prod.case_cong option.case_cong if_cong sum.case_cong flow.case_cong)

lemma sig_root_rest [simp]:
  "root_qualified (e\<lparr>gpgsm_check_cert_sig := f\<rparr>) c st = root_qualified e c st"
  "root_trust (e\<lparr>gpgsm_check_cert_sig := f\<rparr>) lm irc st = root_trust e lm irc st"
  "root_revocation (e\<lparr>gpgsm_check_cert_sig := f\<rparr>) flags relax st
     = root_revocation e flags relax st"
  by (simp_all add: root_qualified_def root_trust_def root_revocation_def
      is_cert_still_valid_def cong: prod.case_cong option.case_cong if_cong sum.case_cong flow.case_cong)














lemmas hop_defs =
  hop_def hop_issuer_def issuer_allowed_def edge_revocation_def find_up_def find_up_aki_def
  find_up_subject_def keydb_search_subject_def keydb_search_def keydb_visible_def
  keydb_search_reset_def keydb_set_ephemeral_def keydb_get_cert_def compare_certs_def
  gpgsm_is_root_cert_def maxdepth_def


subsection \<open>The lines of the policy file\<close>

lemma fgets_take_line:
  "NL \<notin> set l \<Longrightarrow> length l < k \<Longrightarrow> fgets_take k (l @ NL # rest) = (l @ [NL], rest)"
proof (induction l arbitrary: k)
  case Nil
  then show ?case by (cases k) simp_all
next
  case (Cons c l)
  then show ?case by (cases k) auto
qed

lemma fgets_take_hd:
  "fgets_take (Suc k) (c # cs) = (l, r) \<Longrightarrow> l \<noteq> [] \<and> hd l = c"
  by (auto split: if_splits prod.splits)

lemma fgets_take_no_newline:
  "NL \<notin> set (take k d) \<Longrightarrow> fgets_take k d = (take k d, drop k d)"
proof (induction k arbitrary: d)
  case 0
  then show ?case by simp
next
  case (Suc k)
  then show ?case by (cases d) auto
qed

lemma cstr_no_NUL: "NUL \<notin> set l \<Longrightarrow> cstr l = l"
  by (auto simp: cstr_def)

lemma cstr_nonempty: "l \<noteq> [] \<Longrightarrow> hd l \<noteq> NUL \<Longrightarrow> cstr l \<noteq> []"
  by (cases l) (simp_all add: cstr_def)

lemma cstr_last: "cstr l \<noteq> [] \<Longrightarrow> last (cstr l) \<in> set l"
proof -
  assume "cstr l \<noteq> []"
  then have "last (cstr l) \<in> set (cstr l)" by simp
  then show ?thesis unfolding cstr_def by (rule set_takeWhileD [THEN conjunct1])
qed

lemma NL_not_NUL [simp]: "NL \<noteq> NUL" "NUL \<noteq> NL"
  by (simp_all add: NL_def NUL_def)

lemma policy_line_accepted:
  assumes "NL \<notin> set l" and "NUL \<notin> set l" and "length l \<le> 253"
  shows "policy_loop a p \<lparr>f_data = l @ NL # rest, f_end = x\<rparr>
      = (case policy_line p (l @ [NL]) of
           Some rc \<Rightarrow> rc
         | None \<Rightarrow> policy_loop a p \<lparr>f_data = rest, f_end = x\<rparr>)"
proof -
  from assms have t: "fgets_take 254 (l @ NL # rest) = (l @ [NL], rest)"
    by (intro fgets_take_line) simp_all
  then have f: "fgets 255 \<lparr>f_data = l @ NL # rest, f_end = x\<rparr>
      = (Some (l @ [NL]), \<lparr>f_data = rest, f_end = x\<rparr>)"
    by (simp add: fgets_def)
  from assms have c: "cstr (l @ [NL]) = l @ [NL]"
    by (intro cstr_no_NUL) simp
  show ?thesis
    by (subst policy_loop.simps) (simp add: f c)
qed

lemma policy_line_too_long:
  assumes "d \<noteq> []" and "hd d \<noteq> NUL" and "NL \<notin> set (take 254 d)"
    and "254 \<le> length d \<or> x = AtEOF"
  shows "policy_loop a p \<lparr>f_data = d, f_end = x\<rparr> = gpg_error GPG_ERR_LINE_TOO_LONG"
proof -
  let ?l = "take 254 d"
  from assms have ne: "?l \<noteq> []" and h: "hd ?l \<noteq> NUL" by (cases d; simp)+
  from assms(4) have "\<not> (drop 254 d = [] \<and> length ?l < 254 \<and> last ?l \<noteq> NL \<and> x \<noteq> AtEOF)"
    by auto
  with ne fgets_take_no_newline [OF assms(3)]
  have f: "fgets 255 \<lparr>f_data = d, f_end = x\<rparr>
      = (Some ?l, \<lparr>f_data = drop 254 d, f_end = x\<rparr>)"
    by (simp add: fgets_def)
  from cstr_nonempty [OF ne h] have c: "cstr ?l \<noteq> []" .
  from cstr_last [OF c] assms(3) have "last (cstr ?l) \<noteq> NL" by metis
  with c show ?thesis
    by (subst policy_loop.simps) (simp add: f)
qed

lemma policy_line_nul:
  assumes "NL \<notin> set l" and "NUL \<in> set l" and "hd l \<noteq> NUL" and "length l \<le> 253"
  shows "policy_loop a p \<lparr>f_data = l @ NL # rest, f_end = x\<rparr>
      = gpg_error GPG_ERR_LINE_TOO_LONG"
proof -
  from assms have t: "fgets_take 254 (l @ NL # rest) = (l @ [NL], rest)"
    by (intro fgets_take_line) simp_all
  then have f: "fgets 255 \<lparr>f_data = l @ NL # rest, f_end = x\<rparr>
      = (Some (l @ [NL]), \<lparr>f_data = rest, f_end = x\<rparr>)"
    by (simp add: fgets_def)
  from assms(2) have ne: "l \<noteq> []" by auto
  from assms(2) have c: "cstr (l @ [NL]) = cstr l"
    by (simp add: cstr_def takeWhile_append1)
  from cstr_nonempty [OF ne assms(3)] have n: "cstr l \<noteq> []" .
  from cstr_last [OF n] assms(1) have "last (cstr l) \<noteq> NL" by metis
  with n show ?thesis
    by (subst policy_loop.simps) (simp add: f c)
qed

lemma fgets_nul_first:
  assumes "x = AtEOF \<or> NL \<in> set (take 253 d) \<or> 253 \<le> length d"
  shows "\<exists>l fp'. fgets 255 \<lparr>f_data = NUL # d, f_end = x\<rparr> = (Some l, fp') \<and> cstr l = []"
proof -
  have n: "(254::nat) = Suc 253" by simp
  obtain l r where t: "fgets_take 254 (NUL # d) = (l, r)" by force
  then have t': "fgets_take (Suc 253) (NUL # d) = (l, r)" by (simp only: n)
  from fgets_take_hd [OF t'] have ne: "l \<noteq> []" and h: "hd l = NUL" by simp_all
  then have c: "cstr l = []" by (cases l) (simp_all add: cstr_def)
  have "\<not> (r = [] \<and> length l < 254 \<and> last l \<noteq> NL \<and> x \<noteq> AtEOF)"
  proof (cases "NL \<in> set (take 253 d)")
    case True
    then obtain ys zs where s: "take 253 d = ys @ NL # zs" and y: "NL \<notin> set ys"
      by (auto dest: split_list_first)
    then have "length ys < 253"
      by (metis length_take min.cobounded2 length_append length_Cons
          add_Suc_right less_add_Suc1 order_less_le_trans)
    moreover from s have "d = ys @ NL # (zs @ drop 253 d)"
      by (metis append_take_drop_id append_assoc append_Cons)
    ultimately have "fgets_take 254 (NUL # d) = ((NUL # ys) @ [NL], zs @ drop 253 d)"
      using y fgets_take_line [of "NUL # ys" 254 "zs @ drop 253 d"] by simp
    with t have "l = (NUL # ys) @ [NL]" by simp
    then have "last l = NL" by simp
    then show ?thesis by simp
  next
    case False
    have k: "take 254 (NUL # d) = NUL # take 253 d"
      by (subst n) (rule take_Suc_Cons)
    with False have "NL \<notin> set (take 254 (NUL # d))" by simp
    from fgets_take_no_newline [OF this] t k have l: "l = NUL # take 253 d" by simp
    from assms False show ?thesis
    proof (elim disjE)
      assume "253 \<le> length d"
      with l have "length l = 254" by simp
      then show ?thesis by simp
    qed simp_all
  qed
  with t ne c show ?thesis by (simp add: fgets_def)
qed

lemma policy_line_nul_first:
  assumes "x = AtEOF \<or> NL \<in> set (take 253 d) \<or> 253 \<le> length d"
  shows "policy_loop a p \<lparr>f_data = NUL # d, f_end = x\<rparr> = gpg_error GPG_ERR_INCOMPLETE_LINE"
proof -
  from fgets_nul_first [OF assms] obtain l fp'
    where f: "fgets 255 \<lparr>f_data = NUL # d, f_end = x\<rparr> = (Some l, fp')" and c: "cstr l = []"
    by blast
  show ?thesis
    by (subst policy_loop.simps) (simp add: f c)
qed

lemma check_cert_policy_file:
  assumes "cert_policies c = (no_error, p)" and "opt_policy_file e = Some name"
    and "fopen e name = Some fp"
  shows "check_cert_policy e c = policy_loop (strstr_found p '':C'') p fp"
  using assms by (simp add: check_cert_policy_def no_error_def)

text \<open>
  C3, as the code has it. With the policy file open, \<^verbatim>\<open>check_cert_policy\<close> is
  the loop over its lines. A line of at most 253 characters, none of them a NUL byte,
  followed by a newline is read whole and treated as a line of the file: skipped if
  blank or a comment, a configuration error if its first field is empty, success if
  the field matches, else the loop goes on with the rest of the file. The result is
  \<open>GPG_ERR_LINE_TOO_LONG\<close> when what is read does not start with a NUL byte and
  either has no newline in its 254 characters, as for a line of 254 or more
  characters and for a last line that ends at end of file without newline, or has a
  NUL byte before its newline. \<open>GPG_ERR_INCOMPLETE_LINE\<close> is the result when what is
  read starts with a NUL byte.
\<close>

theorem policy_line_length:
  "(cert_policies c = (no_error, p) \<and> opt_policy_file e = Some name
      \<and> fopen e name = Some fp \<longrightarrow>
      check_cert_policy e c = policy_loop (strstr_found p '':C'') p fp)
   \<and> (NL \<notin> set l \<and> NUL \<notin> set l \<and> length l \<le> 253 \<longrightarrow>
        policy_loop a p \<lparr>f_data = l @ NL # rest, f_end = x\<rparr>
          = (case policy_line p (l @ [NL]) of
               Some rc \<Rightarrow> rc
             | None \<Rightarrow> policy_loop a p \<lparr>f_data = rest, f_end = x\<rparr>))
   \<and> (NL \<notin> set l \<and> NUL \<in> set l \<and> hd l \<noteq> NUL \<and> length l \<le> 253 \<longrightarrow>
        policy_loop a p \<lparr>f_data = l @ NL # rest, f_end = x\<rparr>
          = gpg_error GPG_ERR_LINE_TOO_LONG)
   \<and> (254 \<le> length d \<and> hd d \<noteq> NUL \<and> NL \<notin> set (take 254 d) \<longrightarrow>
        policy_loop a p \<lparr>f_data = d, f_end = x\<rparr> = gpg_error GPG_ERR_LINE_TOO_LONG)
   \<and> (d \<noteq> [] \<and> hd d \<noteq> NUL \<and> NL \<notin> set d \<longrightarrow>
        policy_loop a p \<lparr>f_data = d, f_end = AtEOF\<rparr> = gpg_error GPG_ERR_LINE_TOO_LONG)
   \<and> (x = AtEOF \<or> NL \<in> set (take 253 d) \<or> 253 \<le> length d \<longrightarrow>
        policy_loop a p \<lparr>f_data = NUL # d, f_end = x\<rparr>
          = gpg_error GPG_ERR_INCOMPLETE_LINE)"
proof (intro conjI impI)
  assume "cert_policies c = (no_error, p) \<and> opt_policy_file e = Some name
      \<and> fopen e name = Some fp"
  then show "check_cert_policy e c = policy_loop (strstr_found p '':C'') p fp"
    using check_cert_policy_file by blast
next
  assume "NL \<notin> set l \<and> NUL \<notin> set l \<and> length l \<le> 253"
  then show "policy_loop a p \<lparr>f_data = l @ NL # rest, f_end = x\<rparr>
          = (case policy_line p (l @ [NL]) of
               Some rc \<Rightarrow> rc
             | None \<Rightarrow> policy_loop a p \<lparr>f_data = rest, f_end = x\<rparr>)"
    using policy_line_accepted by blast
next
  assume "NL \<notin> set l \<and> NUL \<in> set l \<and> hd l \<noteq> NUL \<and> length l \<le> 253"
  then show "policy_loop a p \<lparr>f_data = l @ NL # rest, f_end = x\<rparr>
          = gpg_error GPG_ERR_LINE_TOO_LONG"
    using policy_line_nul by blast
next
  assume a: "254 \<le> length d \<and> hd d \<noteq> NUL \<and> NL \<notin> set (take 254 d)"
  then have "d \<noteq> []" by auto
  with a show "policy_loop a p \<lparr>f_data = d, f_end = x\<rparr> = gpg_error GPG_ERR_LINE_TOO_LONG"
    by (intro policy_line_too_long) auto
next
  assume a: "d \<noteq> [] \<and> hd d \<noteq> NUL \<and> NL \<notin> set d"
  then have "NL \<notin> set (take 254 d)" by (auto dest: in_set_takeD)
  with a show "policy_loop a p \<lparr>f_data = d, f_end = AtEOF\<rparr> = gpg_error GPG_ERR_LINE_TOO_LONG"
    by (intro policy_line_too_long) auto
next
  assume "x = AtEOF \<or> NL \<in> set (take 253 d) \<or> 253 \<le> length d"
  then show "policy_loop a p \<lparr>f_data = NUL # d, f_end = x\<rparr>
      = gpg_error GPG_ERR_INCOMPLETE_LINE"
    by (rule policy_line_nul_first)
qed

lemma padded_facts:
  "length (padded_policy_line n) = n + 5"
  "NL \<notin> set (padded_policy_line n)"
  "NUL \<notin> set (padded_policy_line n)"
  "hd (padded_policy_line n @ ys) = CHR ''1''"
  "padded_policy_line n @ ys \<noteq> []"
  by (auto simp: padded_policy_line_def NL_def NUL_def)

lemma padded_policy_matches:
  "0 < n \<Longrightarrow> policy_line (''1.2.3:C:'' @ [NL]) (padded_policy_line n @ [NL]) = Some no_error"
  by (cases n)
     (simp_all add: policy_line_def policy_skip_line_def policy_token_def
        padded_policy_line_def spacep_def NL_def)

lemma padded_too_long:
  assumes "249 \<le> n"
  shows "policy_loop a p (policy_stream (padded_policy_line n @ [NL]))
      = gpg_error GPG_ERR_LINE_TOO_LONG"
proof -
  let ?d = "padded_policy_line n @ [NL]"
  from assms have t: "take 254 ?d = take 254 (padded_policy_line n)"
    by (simp add: padded_facts)
  have "NL \<notin> set (take 254 (padded_policy_line n))"
    using padded_facts(2) [of n] by (auto dest: in_set_takeD)
  with t have n: "NL \<notin> set (take 254 ?d)" by simp
  from assms have l: "254 \<le> length ?d \<or> AtEOF = AtEOF" by simp
  have h: "hd ?d \<noteq> NUL" by (simp add: padded_facts NUL_def)
  from policy_line_too_long [OF padded_facts(5) h n l] show ?thesis
    by (simp add: policy_stream_def)
qed

lemma policy_env_check:
  "check_cert_policy (policy_env d) policy_cert
     = policy_loop True (''1.2.3:C:'' @ [NL]) (policy_stream d)"
proof -
  have "check_cert_policy (policy_env d) policy_cert
      = policy_loop (strstr_found (''1.2.3:C:'' @ [NL]) '':C'') (''1.2.3:C:'' @ [NL])
          (policy_stream d)"
    by (rule check_cert_policy_file [where name = "''policies.txt''"])
       (simp_all add: policy_cert_def policy_env_def sample_env_def sample_cert_def)
  then show ?thesis by simp
qed

theorem policy_line_length_witness:
  "length (padded_policy_line 248) = 253
   \<and> check_cert_policy (policy_env (padded_policy_line 248 @ [NL])) policy_cert = no_error
   \<and> length (padded_policy_line 249) = 254
   \<and> policy_loop True (''1.2.3:C:'' @ [NL]) (policy_stream (padded_policy_line 249 @ [NL]))
       = gpg_error GPG_ERR_LINE_TOO_LONG
   \<and> policy_loop True (''1.2.3:C:'' @ [NL]) (policy_stream ''1.2.3'')
       = gpg_error GPG_ERR_LINE_TOO_LONG
   \<and> policy_loop True (''1.2.3:C:'' @ [NL]) (policy_stream (''1.2.3'' @ NUL # ''x'' @ [NL]))
       = gpg_error GPG_ERR_LINE_TOO_LONG
   \<and> policy_loop True (''1.2.3:C:'' @ [NL]) (policy_stream (NUL # ''1.2.3''))
       = gpg_error GPG_ERR_INCOMPLETE_LINE
   \<and> policy_loop True (''1.2.3:C:'' @ [NL])
        \<lparr>f_data = NUL # ''1.2.3'' @ [NL], f_end = ReadError GPG_ERR_GENERAL\<rparr>
       = gpg_error GPG_ERR_INCOMPLETE_LINE"
proof -
  let ?p = "''1.2.3:C:'' @ [NL]"
  have c: "check_cert_policy (policy_env (padded_policy_line 248 @ [NL])) policy_cert
      = policy_loop (strstr_found ?p '':C'') ?p (policy_stream (padded_policy_line 248 @ [NL]))"
    using policy_line_length [where c = policy_cert and p = ?p
        and e = "policy_env (padded_policy_line 248 @ [NL])" and name = "''policies.txt''"
        and fp = "policy_stream (padded_policy_line 248 @ [NL])"]
    by (simp add: policy_cert_def policy_env_def sample_env_def sample_cert_def)
  have a: "policy_loop True ?p (policy_stream (padded_policy_line 248 @ [NL])) = no_error"
    using policy_line_length [where l = "padded_policy_line 248" and a = True and p = ?p
        and rest = "[]" and x = AtEOF] padded_policy_matches [of 248]
    by (simp add: padded_facts policy_stream_def)
  have l: "policy_loop True ?p (policy_stream (padded_policy_line 249 @ [NL]))
      = gpg_error GPG_ERR_LINE_TOO_LONG"
    using policy_line_length [where d = "padded_policy_line 249 @ [NL]" and a = True
        and p = ?p and x = AtEOF] padded_facts(2) [of 249]
    by (auto simp: padded_facts policy_stream_def NUL_def dest: in_set_takeD)
  have u: "policy_loop True ?p (policy_stream ''1.2.3'') = gpg_error GPG_ERR_LINE_TOO_LONG"
    using policy_line_length [where d = "''1.2.3''" and a = True and p = ?p]
    by (simp add: policy_stream_def NL_def NUL_def)
  have z: "policy_loop True ?p (policy_stream (''1.2.3'' @ NUL # ''x'' @ [NL]))
      = gpg_error GPG_ERR_LINE_TOO_LONG"
    using policy_line_length [where l = "''1.2.3'' @ NUL # ''x''" and a = True and p = ?p
        and rest = "[]" and x = AtEOF]
    by (simp add: policy_stream_def NL_def NUL_def)
  have i: "policy_loop True ?p (policy_stream (NUL # ''1.2.3''))
      = gpg_error GPG_ERR_INCOMPLETE_LINE"
    using policy_line_length [where d = "''1.2.3''" and a = True and p = ?p and x = AtEOF]
    by (simp add: policy_stream_def)
  have j: "policy_loop True ?p
        \<lparr>f_data = NUL # ''1.2.3'' @ [NL], f_end = ReadError GPG_ERR_GENERAL\<rparr>
      = gpg_error GPG_ERR_INCOMPLETE_LINE"
    using policy_line_length [where d = "''1.2.3'' @ [NL]" and a = True and p = ?p
        and x = "ReadError GPG_ERR_GENERAL"]
    by (simp add: NL_def)
  from c a l u z i j show ?thesis by (simp add: padded_facts)
qed

text \<open>
  C3 as stated fails. A line of exactly 255 characters, which names the policy of the
  certificate and would be accepted, gives \<open>GPG_ERR_LINE_TOO_LONG\<close>: \<^verbatim>\<open>fgets\<close>
  is given the size 255 and so reads at most 254 characters, the newline included.
  A last line without newline gives \<open>GPG_ERR_LINE_TOO_LONG\<close> too, not
  \<open>GPG_ERR_INCOMPLETE_LINE\<close>. The same line with 253 characters is accepted.
\<close>

theorem policy_line_length_counterexample:
  "length (padded_policy_line 250) = 255
   \<and> check_cert_policy (policy_env (padded_policy_line 250 @ [NL])) policy_cert
       = gpg_error GPG_ERR_LINE_TOO_LONG
   \<and> check_cert_policy (policy_env ''1.2.3'') policy_cert = gpg_error GPG_ERR_LINE_TOO_LONG
   \<and> gpg_error GPG_ERR_LINE_TOO_LONG \<noteq> gpg_error GPG_ERR_INCOMPLETE_LINE
   \<and> length (padded_policy_line 248) = 253
   \<and> check_cert_policy (policy_env (padded_policy_line 248 @ [NL])) policy_cert = no_error"
proof -
  have a: "check_cert_policy (policy_env (padded_policy_line 250 @ [NL])) policy_cert
       = gpg_error GPG_ERR_LINE_TOO_LONG"
    by (simp add: policy_env_check padded_too_long)
  have "policy_loop True (''1.2.3:C:'' @ [NL]) \<lparr>f_data = ''1.2.3'', f_end = AtEOF\<rparr>
      = gpg_error GPG_ERR_LINE_TOO_LONG"
    by (rule policy_line_too_long) (simp_all add: NL_def NUL_def)
  then have b: "check_cert_policy (policy_env ''1.2.3'') policy_cert
      = gpg_error GPG_ERR_LINE_TOO_LONG"
    by (simp add: policy_env_check policy_stream_def)
  have "policy_loop True (''1.2.3:C:'' @ [NL])
          \<lparr>f_data = padded_policy_line 248 @ NL # [], f_end = AtEOF\<rparr> = no_error"
    using policy_line_accepted [of "padded_policy_line 248" True "''1.2.3:C:'' @ [NL]" "[]" AtEOF]
      padded_policy_matches [of 248]
    by (simp add: padded_facts)
  then have c: "check_cert_policy (policy_env (padded_policy_line 248 @ [NL])) policy_cert
      = no_error"
    by (simp add: policy_env_check policy_stream_def)
  from a b c show ?thesis by (simp add: padded_facts gpg_error_def)
qed

subsection \<open>The expiration time returned\<close>

lemma earliest_Nil [simp]: "earliest [] = []"
  by (simp add: earliest_def)

lemma earliest_empty_iff: "earliest ts = [] \<longleftrightarrow> filter (\<lambda>t. t \<noteq> []) ts = []"
proof
  assume e: "earliest ts = []"
  show "filter (\<lambda>t. t \<noteq> []) ts = []"
  proof (rule ccontr)
    assume n: "filter (\<lambda>t. t \<noteq> []) ts \<noteq> []"
    then have "set (filter (\<lambda>t. t \<noteq> []) ts) \<noteq> {}" by (simp only: set_empty not_False_eq_True)
    then have "Min (set (filter (\<lambda>t. t \<noteq> []) ts)) \<in> set (filter (\<lambda>t. t \<noteq> []) ts)"
      by (intro Min_in) (rule finite_set)
    with e n show False by (simp add: earliest_def)
  qed
next
  assume "filter (\<lambda>t. t \<noteq> []) ts = []"
  then show "earliest ts = []" by (simp add: earliest_def)
qed

lemma earliest_Cons:
  "earliest (t # ts) =
     (if t \<noteq> [] then
        (if earliest ts = [] then t else if t < earliest ts then t else earliest ts)
      else earliest ts)"
proof (cases "t = []")
  case True
  then show ?thesis by (simp add: earliest_def)
next
  case False
  show ?thesis
  proof (cases "filter (\<lambda>t. t \<noteq> []) ts = []")
    case True
    with False show ?thesis by (simp add: earliest_def)
  next
    case n: False
    then have "earliest ts \<noteq> []" by (simp add: earliest_empty_iff)
    moreover have "earliest (t # ts) = min t (earliest ts)"
    proof -
      let ?F = "filter (\<lambda>t. t \<noteq> []) ts"
      from n have ne: "set ?F \<noteq> {}" by (simp only: set_empty not_False_eq_True)
      from False have "filter (\<lambda>t. t \<noteq> []) (t # ts) = t # ?F" by simp
      then have "earliest (t # ts) = Min (insert t (set ?F))"
        by (simp only: earliest_def list.set list.distinct if_False)
      also have "\<dots> = min t (Min (set ?F))"
        by (rule Min_insert [OF finite_set ne])
      also from n have "Min (set ?F) = earliest ts" by (simp only: earliest_def if_False)
      finally show ?thesis .
    qed
    ultimately show ?thesis using False by (auto simp: min_def)
  qed
qed

lemma check_validity_dated:
  "vs_dated (flow_state (check_validity e st))
     = (if validity_read (vs_subject_cert st) then vs_subject_cert st # vs_dated st
        else vs_dated st)"
  by (auto simp: check_validity_def validity_read_def Let_def split: prod.splits)

lemma check_validity_inv:
  "exptime_inv st \<Longrightarrow> exptime_inv (flow_state (check_validity e st))"
  by (auto simp: check_validity_def exptime_inv_def earliest_Cons Let_def split: prod.splits)

lemma check_validity_Ok_read:
  "check_validity e st = Ok st1 \<Longrightarrow> validity_read (vs_subject_cert st)"
  by (auto simp: check_validity_def validity_read_def Let_def split: prod.splits if_splits)

lemma node_checks_state:
  "vs_dated (flow_state (node_checks e st)) = vs_dated (flow_state (check_validity e st))
   \<and> vs_exptime (flow_state (node_checks e st)) = vs_exptime (flow_state (check_validity e st))"
  by (cases "check_validity e st") (simp_all add: node_checks_def Let_def)

lemma node_checks_Ok_read:
  "node_checks e st = Ok st1 \<Longrightarrow> validity_read (vs_subject_cert st)"
  by (cases "check_validity e st")
     (auto simp: node_checks_def Let_def dest: check_validity_Ok_read split: if_splits)

lemma set_rev_frame [simp]:
  "vs_dated (set_rev st r) = vs_dated st" "vs_exptime (set_rev st r) = vs_exptime st"
  "vs_subject_cert (set_rev st r) = vs_subject_cert st"
  by (simp_all add: set_rev_def split: prod.splits)

lemma root_qualified_frame [simp]:
  "vs_dated (root_qualified e c st) = vs_dated st"
  "vs_exptime (root_qualified e c st) = vs_exptime st"
  by (simp_all add: root_qualified_def Let_def split: prod.splits)

lemma root_trust_frame:
  "root_trust e lm irc st = (rc, st1)
   \<Longrightarrow> vs_dated st1 = vs_dated st \<and> vs_exptime st1 = vs_exptime st"
  by (auto simp: root_trust_def Let_def split: if_splits)

lemma root_revocation_frame:
  "vs_dated (step_state (root_revocation e flags relax st)) = vs_dated st
   \<and> vs_exptime (step_state (root_revocation e flags relax st)) = vs_exptime st"
  by (simp add: root_revocation_def split: prod.splits)

lemma root_branch_frame:
  "vs_dated (step_state (root_branch e lm flags c irc relax st)) = vs_dated st
   \<and> vs_exptime (step_state (root_branch e lm flags c irc relax st)) = vs_exptime st"
  by (auto simp: root_branch_def root_revocation_frame split: prod.splits
      dest: root_trust_frame)

lemma edge_revocation_frame:
  "edge_revocation e flags ri ic st = (rc, st1)
   \<Longrightarrow> vs_dated st1 = vs_dated st \<and> vs_exptime st1 = vs_exptime st"
  by (auto simp: edge_revocation_def split: if_splits prod.splits)

lemma hop_issuer_frame:
  "vs_dated (step_state (hop_issuer e lm flags ic st)) = vs_dated st
   \<and> vs_exptime (step_state (hop_issuer e lm flags ic st)) = vs_exptime st"
  by (auto simp: hop_issuer_def split: prod.splits dest: edge_revocation_frame)

lemma hop_frame:
  "hop fuel e lm flags issuer st = Some r
   \<Longrightarrow> vs_dated (step_state r) = vs_dated st \<and> vs_exptime (step_state r) = vs_exptime st"
  by (auto simp: hop_def Let_def hop_issuer_frame split: if_splits prod.splits option.splits)

lemma chain_step_state:
  assumes "chain_step fuel e lm flags c st = Some r"
  shows "cert_issuer (vs_subject_cert st) \<noteq> None
           \<and> vs_exptime (step_state r) = vs_exptime (flow_state (check_validity e st))
           \<and> vs_dated (step_state r) = vs_dated (flow_state (check_validity e st))
         \<or> cert_issuer (vs_subject_cert st) = None
           \<and> vs_exptime (step_state r) = vs_exptime st \<and> vs_dated (step_state r) = vs_dated st"
proof (cases "cert_issuer (vs_subject_cert st)")
  case None
  with assms show ?thesis by (auto simp: chain_step_def)
next
  case (Some issuer)
  show ?thesis
  proof (cases "node_checks e st")
    case (Leave rc st1)
    with Some assms node_checks_state [of e st] show ?thesis
      by (auto simp: chain_step_def)
  next
    case (Ok st1)
    with Some assms node_checks_state [of e st] root_branch_frame hop_frame
    show ?thesis
      by (auto simp: chain_step_def split: if_splits prod.splits)
  qed
qed

lemma chain_step_inv:
  assumes "chain_step fuel e lm flags c st = Some r" and "exptime_inv st"
  shows "exptime_inv (step_state r)"
  using chain_step_state [OF assms(1)] check_validity_inv [OF assms(2), of e] assms(2)
  by (auto simp: exptime_inv_def)

lemma chain_loop_inv:
  "chain_loop fuel e lm flags c st = Some (k, rc, st1) \<Longrightarrow> exptime_inv st
   \<Longrightarrow> exptime_inv st1"
proof (induction fuel e lm flags c st rule: chain_loop.induct)
  case (1 fuel e lm flags c st)
  show ?case
  proof (cases "chain_step fuel e lm flags c st")
    case None
    with "1.prems" chain_loop_none [OF None] show ?thesis by simp
  next
    case (Some r)
    from chain_step_inv [OF Some "1.prems"(2)] have i: "exptime_inv (step_state r)" .
    show ?thesis
    proof (cases r)
      case (Exit k' rc' st')
      with Some "1.prems" chain_loop_exit [of fuel e lm flags c st k' rc' st'] i
      show ?thesis by auto
    next
      case (Continue st')
      with Some "1.prems" chain_loop_continue [of fuel e lm flags c st st']
      have "chain_loop fuel e lm flags c st' = Some (k, rc, st1)" by simp
      with "1.IH" Some Continue i show ?thesis by auto
    qed
  qed
qed

lemma state_after_snoc:
  "state_after (Suc k) fuel e lm flags c st0 = Some st'
   \<longleftrightarrow> (\<exists>st. state_after k fuel e lm flags c st0 = Some st
             \<and> chain_step fuel e lm flags c st = Some (Continue st'))"
proof (induction k arbitrary: st0)
  case 0
  show ?case by (auto split: option.splits step_result.splits)
next
  case (Suc k)
  show ?case
  proof (cases "chain_step fuel e lm flags c st0")
    case None
    then show ?thesis by simp
  next
    case (Some r)
    show ?thesis
    proof (cases r)
      case (Exit k' rc' st1)
      with Some show ?thesis by simp
    next
      case (Continue st1)
      with Some Suc.IH [of st1] show ?thesis by simp
    qed
  qed
qed

lemma state_after_inv:
  "state_after k fuel e lm flags c st0 = Some st \<Longrightarrow> exptime_inv st0 \<Longrightarrow> exptime_inv st"
proof (induction k arbitrary: st)
  case 0
  then show ?case by simp
next
  case (Suc k)
  from Suc.prems(1) obtain stk where a: "state_after k fuel e lm flags c st0 = Some stk"
    and s: "chain_step fuel e lm flags c stk = Some (Continue st)"
    by (auto simp only: state_after_snoc)
  from chain_step_inv [OF s Suc.IH [OF a Suc.prems(2)]] show ?case by simp
qed

lemma continue_dated:
  assumes "chain_step fuel e lm flags c st = Some (Continue st')"
  shows "dated (vs_subject_cert st) \<and> vs_dated st' = vs_subject_cert st # vs_dated st"
proof -
  from assms obtain issuer st1 where i: "cert_issuer (vs_subject_cert st) = Some issuer"
    and n: "node_checks e st = Ok st1"
    by (auto simp: chain_step_def root_branch_exits
        split: option.splits flow.splits if_splits prod.splits)
  from node_checks_Ok_read [OF n] i have d: "dated (vs_subject_cert st)"
    by (simp add: dated_def)
  with chain_step_state [OF assms] i check_validity_dated [of e st] show ?thesis
    by (simp add: dated_def)
qed

lemma exit_dated:
  assumes "chain_step fuel e lm flags c st = Some (Exit k rc st1)"
  shows "vs_dated st1
      = (if dated (vs_subject_cert st) then vs_subject_cert st # vs_dated st else vs_dated st)"
  using chain_step_state [OF assms] check_validity_dated [of e st]
  by (auto simp: dated_def)

lemma dated_rounds:
  assumes "vs_dated st0 = []"
  shows "state_after k fuel e lm flags c st0 = Some st
   \<Longrightarrow> vs_dated st = rev (map (\<lambda>j. round_cert j fuel e lm flags c st0) [0..<k])
       \<and> (\<forall>j<k. dated (round_cert j fuel e lm flags c st0))"
proof (induction k arbitrary: st)
  case 0
  with assms show ?case by simp
next
  case (Suc k)
  from Suc.prems obtain stk where a: "state_after k fuel e lm flags c st0 = Some stk"
    and s: "chain_step fuel e lm flags c stk = Some (Continue st)"
    by (auto simp only: state_after_snoc)
  from a have r: "round_cert k fuel e lm flags c st0 = vs_subject_cert stk"
    by (simp add: round_cert_def)
  from continue_dated [OF s] Suc.IH [OF a] r show ?case
    by (auto simp: less_Suc_eq)
qed

lemma earliest_set: "set ts = set ts' \<Longrightarrow> earliest ts = earliest ts'"
proof -
  assume s: "set ts = set ts'"
  then have "set (filter (\<lambda>t. t \<noteq> []) ts) = set (filter (\<lambda>t. t \<noteq> []) ts')" by simp
  moreover from this
  have "(filter (\<lambda>t. t \<noteq> []) ts = []) = (filter (\<lambda>t. t \<noteq> []) ts' = [])"
    by (metis set_empty)
  ultimately show ?thesis by (simp only: earliest_def)
qed

lemma exptime_of_rounds:
  assumes kh: "keydb_new e = Some kh"
    and nb: "\<not> (opt_no_chain_validation e \<and> \<not> lm)"
    and sa: "state_after n fuel e lm flags c (initial_vstate w kh c) = Some st"
    and ex: "round_exits (chain_step fuel e lm flags c st)"
  shows "map_option (\<lambda>r. fst (snd r)) (gpgsm_validate_chain fuel e w c True lm flags)
      = Some (Some (earliest (map (\<lambda>c. snd (cert_not_after c))
                 (filter dated
                    (map (\<lambda>j. round_cert j fuel e lm flags c (initial_vstate w kh c))
                       [0..<Suc n])))))"
proof -
  let ?i = "initial_vstate w kh c"
  let ?round = "\<lambda>j. round_cert j fuel e lm flags c ?i"
  from ex obtain k rc st1 where s: "chain_step fuel e lm flags c st = Some (Exit k rc st1)"
    by (auto simp: round_exits_def split: option.splits step_result.splits)
  have i0: "exptime_inv ?i" and d0: "vs_dated ?i = []"
    by (simp_all add: exptime_inv_def initial_vstate_def)
  from chain_step_inv [OF s state_after_inv [OF sa i0]] have inv: "exptime_inv st1" by simp
  from dated_rounds [OF d0 sa] have dr: "vs_dated st = rev (map ?round [0..<n])"
    and all: "\<forall>j<n. dated (?round j)"
    by simp_all
  from sa have rn: "?round n = vs_subject_cert st" by (simp add: round_cert_def)
  from all have f: "filter dated (map ?round [0..<n]) = map ?round [0..<n]"
    by (auto simp: filter_id_conv)
  from exit_dated [OF s] dr rn f
  have "vs_dated st1 = rev (filter dated (map ?round [0..<Suc n]))"
    by simp
  then have "set (map (\<lambda>c. snd (cert_not_after c)) (vs_dated st1))
      = set (map (\<lambda>c. snd (cert_not_after c)) (filter dated (map ?round [0..<Suc n])))"
    by (simp only: set_map set_rev)
  from earliest_set [OF this] inv
  have x: "vs_exptime st1
      = earliest (map (\<lambda>c. snd (cert_not_after c)) (filter dated (map ?round [0..<Suc n])))"
    by (simp only: exptime_inv_def)
  from state_after_loop [OF sa] chain_loop_exit [OF s]
  have "chain_loop fuel e lm flags c ?i = Some (k, rc, st1)" by simp
  from validate_chain_unfold [OF kh nb this, of True] x show ?thesis
    by (simp add: validate_leave_def split: prod.splits)
qed

text \<open>
  C5, as the code has it. With \<^verbatim>\<open>r_exptime\<close> not NULL: if the loop ends in round \<open>n\<close>, the time
  stored is the minimum, in the order of \<^verbatim>\<open>strcmp\<close>, of the not-after times that
  are not empty of the certificates of the rounds 0 to \<open>n\<close> whose validity period the
  walk has read, and the empty time if there is no such time. These are the
  certificates of all rounds before the last, and the one of the last round unless
  it has no issuer DN or its validity period cannot be fetched. The empty time is also what is stored when the function returns before
  the loop. The accumulation in one round takes the first time that is not empty as
  it is and replaces the time only by a smaller one.
\<close>

theorem exptime_is_minimum:
  "(keydb_new e = Some kh \<and> \<not> (opt_no_chain_validation e \<and> \<not> lm)
      \<and> state_after n fuel e lm flags c (initial_vstate w kh c) = Some st
      \<and> round_exits (chain_step fuel e lm flags c st) \<longrightarrow>
      map_option (\<lambda>r. fst (snd r)) (gpgsm_validate_chain fuel e w c True lm flags)
        = Some (Some (earliest (map (\<lambda>c. snd (cert_not_after c))
                   (filter dated
                      (map (\<lambda>j. round_cert j fuel e lm flags c (initial_vstate w kh c))
                         [0..<Suc n]))))))
   \<and> ((opt_no_chain_validation e \<and> \<not> lm) \<or> keydb_new e = None \<longrightarrow>
        map_option (\<lambda>r. fst (snd r)) (gpgsm_validate_chain fuel e w c True lm flags)
          = Some (Some []))
   \<and> (validity_read (vs_subject_cert st) \<longrightarrow>
        vs_exptime (flow_state (check_validity e st))
          = (if snd (cert_not_after (vs_subject_cert st)) = [] then vs_exptime st
             else if vs_exptime st = [] then snd (cert_not_after (vs_subject_cert st))
             else min (snd (cert_not_after (vs_subject_cert st))) (vs_exptime st)))
   \<and> (state_after n fuel e lm flags c (initial_vstate w kh c) = Some st \<and> j < n \<longrightarrow>
        dated (round_cert j fuel e lm flags c (initial_vstate w kh c)))"
proof (intro conjI impI)
  assume "keydb_new e = Some kh \<and> \<not> (opt_no_chain_validation e \<and> \<not> lm)
      \<and> state_after n fuel e lm flags c (initial_vstate w kh c) = Some st
      \<and> round_exits (chain_step fuel e lm flags c st)"
  then show "map_option (\<lambda>r. fst (snd r)) (gpgsm_validate_chain fuel e w c True lm flags)
        = Some (Some (earliest (map (\<lambda>c. snd (cert_not_after c))
                   (filter dated
                      (map (\<lambda>j. round_cert j fuel e lm flags c (initial_vstate w kh c))
                         [0..<Suc n])))))"
    using exptime_of_rounds by blast
next
  assume "(opt_no_chain_validation e \<and> \<not> lm) \<or> keydb_new e = None"
  then show "map_option (\<lambda>r. fst (snd r)) (gpgsm_validate_chain fuel e w c True lm flags)
          = Some (Some [])"
    by (auto simp: gpgsm_validate_chain_def validate_leave_def)
next
  assume "validity_read (vs_subject_cert st)"
  then show "vs_exptime (flow_state (check_validity e st))
          = (if snd (cert_not_after (vs_subject_cert st)) = [] then vs_exptime st
             else if vs_exptime st = [] then snd (cert_not_after (vs_subject_cert st))
             else min (snd (cert_not_after (vs_subject_cert st))) (vs_exptime st))"
    by (auto simp: check_validity_def validity_read_def Let_def min_def split: prod.splits)
next
  assume a: "state_after n fuel e lm flags c (initial_vstate w kh c) = Some st \<and> j < n"
  have "vs_dated (initial_vstate w kh c) = []" by (simp add: initial_vstate_def)
  from dated_rounds [OF this] a
  show "dated (round_cert j fuel e lm flags c (initial_vstate w kh c))"
    by blast
qed

lemmas three_defs =
  three_leaf_def three_world_def expiring_cert_def round_cert_def round_exits_def
  dated_def validity_read_def

lemma three_rounds:
  "round_cert 0 1 sample_env True 0 three_leaf (initial_vstate three_world sample_kh three_leaf)
     = three_leaf"
  "round_cert 1 1 sample_env True 0 three_leaf (initial_vstate three_world sample_kh three_leaf)
     = (expiring_cert ''A'' ''R'' ''20250101T000000'')\<lparr>cert_obj := 1\<rparr>"
  "round_cert 2 1 sample_env True 0 three_leaf (initial_vstate three_world sample_kh three_leaf)
     = (expiring_cert ''R'' ''R'' ''20350101T000000'')\<lparr>cert_obj := 2\<rparr>"
  "map_option (\<lambda>st. round_exits (chain_step 1 sample_env True 0 three_leaf st))
     (state_after 2 1 sample_env True 0 three_leaf
        (initial_vstate three_world sample_kh three_leaf)) = Some True"
  by (simp_all add: three_defs walk_defs hop_defs sample_defs numeral_2_eq_2)

theorem exptime_is_minimum_witness:
  "keydb_new sample_env = Some sample_kh
   \<and> map_option (\<lambda>st. round_exits (chain_step 1 sample_env True 0 three_leaf st))
        (state_after 2 1 sample_env True 0 three_leaf
           (initial_vstate three_world sample_kh three_leaf)) = Some True
   \<and> map_option (\<lambda>r. fst (snd r))
        (gpgsm_validate_chain 1 sample_env three_world three_leaf True True 0)
      = Some (Some ''20250101T000000'')
   \<and> map_option (\<lambda>r. fst (snd r))
        (gpgsm_validate_chain 1 (sample_env\<lparr>opt_no_chain_validation := True\<rparr>) three_world
           three_leaf True False 0)
      = Some (Some [])
   \<and> vs_exptime (flow_state (check_validity sample_env
        ((initial_vstate three_world sample_kh three_leaf)
           \<lparr>vs_exptime := ''20250101T000000''\<rparr>)))
      = ''20250101T000000''
   \<and> dated (round_cert 1 1 sample_env True 0 three_leaf
        (initial_vstate three_world sample_kh three_leaf))"
proof -
  let ?i = "initial_vstate three_world sample_kh three_leaf"
  have kh: "keydb_new sample_env = Some sample_kh"
    by (simp add: keydb_new_def sample_env_def sample_kh_def)
  from three_rounds(4) obtain st where
    sa: "state_after 2 1 sample_env True 0 three_leaf ?i = Some st"
    and ex: "round_exits (chain_step 1 sample_env True 0 three_leaf st)"
    by auto
  have l: "[0..<Suc 2] = [0, 1, 2]" by (simp add: upt_rec)
  have m: "earliest (map (\<lambda>c. snd (cert_not_after c))
              (filter dated
                 [three_leaf, (expiring_cert ''A'' ''R'' ''20250101T000000'')\<lparr>cert_obj := 1\<rparr>,
                  (expiring_cert ''R'' ''R'' ''20350101T000000'')\<lparr>cert_obj := 2\<rparr>]))
      = ''20250101T000000''"
    by (simp add: three_defs sample_cert_def no_error_def earliest_def)
  have "map_option (\<lambda>r. fst (snd r))
        (gpgsm_validate_chain 1 sample_env three_world three_leaf True True 0)
      = Some (Some (earliest (map (\<lambda>c. snd (cert_not_after c))
                 (filter dated
                    (map (\<lambda>j. round_cert j 1 sample_env True 0 three_leaf ?i) [0..<Suc 2])))))"
    using exptime_is_minimum [where e = sample_env and kh = sample_kh and lm = True and n = 2
        and fuel = 1 and flags = 0 and c = three_leaf and w = three_world and st = st]
      kh sa ex
    by blast
  then have a: "map_option (\<lambda>r. fst (snd r))
        (gpgsm_validate_chain 1 sample_env three_world three_leaf True True 0)
      = Some (Some ''20250101T000000'')"
    by (simp only: l list.map three_rounds(1,2,3) m)
  have b: "map_option (\<lambda>r. fst (snd r))
        (gpgsm_validate_chain 1 (sample_env\<lparr>opt_no_chain_validation := True\<rparr>) three_world
           three_leaf True False 0)
      = Some (Some [])"
    using exptime_is_minimum [where e = "sample_env\<lparr>opt_no_chain_validation := True\<rparr>"
        and lm = False and fuel = 1 and flags = 0 and c = three_leaf and w = three_world]
    by simp
  have c: "vs_exptime (flow_state (check_validity sample_env
        (?i\<lparr>vs_exptime := ''20250101T000000''\<rparr>))) = ''20250101T000000''"
    using exptime_is_minimum [where e = sample_env
        and st = "?i\<lparr>vs_exptime := ''20250101T000000''\<rparr>"]
    by (simp add: three_defs sample_defs initial_vstate_def)
  have d: "dated (round_cert 1 1 sample_env True 0 three_leaf ?i)"
    using exptime_is_minimum [where e = sample_env and kh = sample_kh and lm = True and n = 2
        and fuel = 1 and flags = 0 and c = three_leaf and w = three_world and st = st
        and j = 1] sa
    by simp
  from kh three_rounds(4) a b c d show ?thesis by simp
qed

text \<open>
  C5 as stated fails. The leaf \<open>L\<close> expires in 2030; its issuer \<open>A\<close>, found in the
  key database, expires in 2025 and has no issuer DN. The walk visits \<open>A\<close> in its
  round 1 and leaves at lines 757-761, before the validity period of \<open>A\<close> is read:
  the function returns \<open>GPG_ERR_BAD_CERT\<close> and stores the time of \<open>L\<close>, which is not
  the minimum over the certificates visited.
\<close>

theorem exptime_is_minimum_counterexample:
  "round_cert 0 1 sample_env True 0 three_leaf
       (initial_vstate no_issuer_world sample_kh three_leaf) = three_leaf
   \<and> round_cert 1 1 sample_env True 0 three_leaf
       (initial_vstate no_issuer_world sample_kh three_leaf)
     = (expiring_cert ''A'' ''R'' ''20250101T000000'')\<lparr>cert_issuer := None, cert_obj := 1\<rparr>
   \<and> map_option (\<lambda>r. (fst r, fst (snd r)))
        (gpgsm_validate_chain 1 sample_env no_issuer_world three_leaf True True 0)
      = Some (gpg_error GPG_ERR_BAD_CERT, Some ''20300101T000000'')
   \<and> earliest (map (\<lambda>c. snd (cert_not_after c))
        [three_leaf,
         (expiring_cert ''A'' ''R'' ''20250101T000000'')\<lparr>cert_issuer := None, cert_obj := 1\<rparr>])
      = ''20250101T000000''"
  by (simp add: gpgsm_validate_chain_def chain_loop.simps validate_leave_def keydb_new_def
      no_issuer_world_def three_defs walk_defs hop_defs sample_defs earliest_def)

subsection \<open>The markers of get\_regtp\_ca\_info\<close>

lemma no_error_simps [simp]:
  "(Err s c = no_error) = (s = GPG_ERR_SOURCE_UNKNOWN \<and> c = GPG_ERR_NO_ERROR)"
  "(no_error = Err s c) = (s = GPG_ERR_SOURCE_UNKNOWN \<and> c = GPG_ERR_NO_ERROR)"
  "Minus1 \<noteq> no_error" "no_error \<noteq> Minus1"
  "gpg_err_code no_error = GPG_ERR_NO_ERROR"
  by (auto simp: no_error_def)

text \<open>The search for an issuer does not touch user data.\<close>

lemma keydb_store_cert_udata [simp]: "w_udata (keydb_store_cert w c) = w_udata w"
  by (simp add: keydb_store_cert_def)

lemma fold_store_udata:
  "w_udata (fst (fold find_up_store_certs_cb certs (w, n))) = w_udata w"
  by (induction certs arbitrary: w n) (simp_all add: find_up_store_certs_cb_def)

lemma search_by_keyid_loop_udata:
  "search_by_keyid_loop w kh issuer keyid = (rc, kh', w') \<Longrightarrow> w_udata w' = w_udata w"
proof (induction w kh issuer keyid arbitrary: rc kh' w' rule: search_by_keyid_loop.induct)
  case (1 w kh issuer keyid)
  obtain rc1 kh1 where s: "keydb_search_subject w kh issuer = (rc1, kh1)" by force
  show ?case
  proof (cases "rc1 \<noteq> no_error")
    case True
    with s "1.prems" show ?thesis by (subst (asm) search_by_keyid_loop.simps) simp
  next
    case ok: False
    show ?thesis
    proof (cases "keydb_get_cert w kh1")
      case None
      with s ok "1.prems" show ?thesis by (subst (asm) search_by_keyid_loop.simps) simp
    next
      case (Some cw)
      obtain c w1 where cw: "cw = (c, w1)" by force
      obtain err subj where k: "cert_skid c = (err, subj)" by force
      from Some cw keydb_get_cert_stores(3) have u: "w_udata w1 = w_udata w" by blast
      show ?thesis
      proof (cases "err = no_error \<and> keyid = subj")
        case True
        with s ok Some cw k "1.prems" u show ?thesis
          by (subst (asm) search_by_keyid_loop.simps) auto
      next
        case False
        with s ok Some cw k "1.prems"
        have "search_by_keyid_loop w1 kh1 issuer keyid = (rc, kh', w')"
          by (subst (asm) search_by_keyid_loop.simps) auto
        from "1.IH" [OF s [symmetric] _ Some cw [symmetric] k [symmetric] False this] ok u
        show ?thesis by simp
      qed
    qed
  qed
qed

lemma find_up_search_by_keyid_udata:
  "find_up_search_by_keyid w kh issuer keyid = (rc, kh', w') \<Longrightarrow> w_udata w' = w_udata w"
  by (auto simp: find_up_search_by_keyid_def split: prod.splits
      dest: search_by_keyid_loop_udata)

lemma find_up_external_udata:
  "find_up_external e w kh issuer keyid = (rc, kh', w') \<Longrightarrow> w_udata w' = w_udata w"
proof -
  assume a: "find_up_external e w kh issuer keyid = (rc, kh', w')"
  obtain r certs where l: "gpgsm_dirmngr_lookup e [external_pattern issuer] = (r, certs)"
    by force
  obtain w1 n where f: "fold find_up_store_certs_cb certs (w, 0) = (w1, n)" by force
  from fold_store_udata [of certs w 0] f have u: "w_udata w1 = w_udata w" by simp
  from a l f have "w_udata w' = w_udata w1"
    by (auto simp: find_up_external_def split: if_splits prod.splits option.splits
        dest: find_up_search_by_keyid_udata)
  with u show ?thesis by simp
qed

lemma find_up_keyid_udata:
  "find_up_keyid w kh issuer keyid = (rc, kh', w') \<Longrightarrow> w_udata w' = w_udata w"
  by (auto simp: find_up_keyid_def split: prod.splits if_splits)
     (metis find_up_search_by_keyid_udata)+

lemma find_up_aki_udata:
  "find_up_aki e w kh c issuer fn = (rc, kh', w') \<Longrightarrow> w_udata w' = w_udata w"
  by (auto simp: find_up_aki_def split: prod.splits if_splits option.splits)
     (metis find_up_keyid_udata find_up_external_udata)+

lemma find_up_udata:
  "find_up e w kh c issuer fn = (rc, kh', w') \<Longrightarrow> w_udata w' = w_udata w"
  by (auto simp: find_up_def split: prod.splits if_splits)
     (metis find_up_aki_udata find_up_external_udata)+

lemma walk_udata:
  "gpgsm_walk_cert_chain e w c = (r, w') \<Longrightarrow> w_udata w' = w_udata w"
  by (auto simp: gpgsm_walk_cert_chain_def split: option.splits if_splits prod.splits)
     (metis find_up_udata keydb_get_cert_stores(3))+

text \<open>
  The walk of lines 1399-1409: the array starts with the certificate under test, gets at
  most 4 entries, the variable \<^verbatim>\<open>cert\<close> ends as its last entry, and no user data
  is touched.
\<close>

lemma regtp_walk_facts:
  assumes "regtp_walk e w rc c array = (rc', c', array', w')"
    and "array \<noteq> []" and "last array = c" and "length array \<le> 4"
  shows "length array' \<le> 4 \<and> array' \<noteq> [] \<and> hd array' = hd array \<and> last array' = c'
         \<and> w_udata w' = w_udata w"
  using assms
proof (induction e w rc c array rule: regtp_walk.induct)
  case (1 e w rc c array)
  show ?case
  proof (cases "length array < 4")
    case False
    with "1.prems" show ?thesis by (subst (asm) regtp_walk.simps) auto
  next
    case True
    obtain res w1 where g: "gpgsm_walk_cert_chain e w c = (res, w1)" by force
    from walk_udata [OF g] have u: "w_udata w1 = w_udata w" .
    show ?thesis
    proof (cases res)
      case (Inl rc1)
      with True g "1.prems" u show ?thesis by (subst (asm) regtp_walk.simps) auto
    next
      case (Inr nxt)
      with True g "1.prems"(1)
      have r: "regtp_walk e w1 no_error nxt (array @ [nxt]) = (rc', c', array', w')"
        by (subst (asm) regtp_walk.simps) simp
      from True "1.prems"
      have "length array' \<le> 4 \<and> array' \<noteq> [] \<and> hd array' = hd (array @ [nxt])
          \<and> last array' = c' \<and> w_udata w' = w_udata w1"
        by (intro "1.IH" [OF True g [symmetric] Inr r]) simp_all
      with u "1.prems"(2) show ?thesis by simp
    qed
  qed
qed

lemma regtp_visited_facts:
  "length (regtp_visited e w c) \<le> 4 \<and> regtp_visited e w c \<noteq> []
   \<and> hd (regtp_visited e w c) = c"
proof -
  obtain rc c1 array w1 where r: "regtp_walk e w no_error c [c] = (rc, c1, array, w1)"
    by (cases "regtp_walk e w no_error c [c]") auto
  from regtp_walk_facts [OF r] r show ?thesis by (simp add: regtp_visited_def)
qed

lemma free_fold_udata:
  "w_udata (fold (\<lambda>c w1. ksba_cert_free w1 c) cs w) k
     = (if fst k \<in> cert_obj ` set cs then None else w_udata w k)"
  by (induction cs arbitrary: w) (auto simp: ksba_cert_free_def)

lemma regtp_release_udata:
  "w_udata (regtp_release w array) k
     = (if fst k \<in> cert_obj ` set (tl array) then None else w_udata w k)"
  by (simp add: regtp_release_def free_fold_udata)

text \<open>
  The user data after a call that finds no cached marker and does not classify the
  certificate as RegTP.
\<close>

lemma regtp_leave_udata:
  assumes "w_udata w (cert_obj c, regtp_key) = None"
    and "fst (get_regtp_ca_info e w c) = False"
  shows "w_udata (snd (snd (get_regtp_ca_info e w c))) k
     = (if fst k \<in> cert_obj ` set (tl (regtp_visited e w c)) then None
        else if k = (cert_obj (last (regtp_visited e w c)), regtp_key)
                \<and> set_user_data_rc e (last (regtp_visited e w c)) regtp_key = no_error
        then Some [NUL]
        else w_udata w k)"
proof -
  obtain rc c1 array w1 where r: "regtp_walk e w no_error c [c] = (rc, c1, array, w1)"
    by (cases "regtp_walk e w no_error c [c]") auto
  from regtp_walk_facts [OF r] have f: "last array = c1" "w_udata w1 = w_udata w"
    by simp_all
  from assms(1) have g: "ksba_cert_get_user_data w c regtp_key 2
      = (Err (GPG_ERR_SOURCE 9) GPG_ERR_NOT_FOUND, [])"
    by (simp add: ksba_cert_get_user_data_def)
  from assms(2) g r
  have "snd (snd (get_regtp_ca_info e w c)) = snd (snd (regtp_leave e w1 c1 array))"
    by (auto simp: get_regtp_ca_info_def no_error_def split: prod.splits if_splits)
  with f r show ?thesis
    by (simp add: regtp_leave_def regtp_release_udata ksba_cert_set_user_data_def
        regtp_visited_def)
qed

lemma regtp_target_unmarked:
  assumes "w_udata w (cert_obj c, regtp_key) = None"
    and "fst (get_regtp_ca_info e w c) = False"
    and "1 < length (regtp_visited e w c)"
  shows "w_udata (snd (snd (get_regtp_ca_info e w c))) (cert_obj c, regtp_key) = None"
proof -
  let ?v = "regtp_visited e w c"
  from assms(3) have "tl ?v \<noteq> []" by (cases ?v) auto
  then have "last ?v = last (tl ?v)" by (cases ?v) auto
  with \<open>tl ?v \<noteq> []\<close> have l: "cert_obj (last ?v) \<in> cert_obj ` set (tl ?v)" by simp
  show ?thesis
  proof (cases "cert_obj c \<in> cert_obj ` set (tl ?v)")
    case True
    then show ?thesis by (simp add: regtp_leave_udata [OF assms(1,2)])
  next
    case False
    with l have "cert_obj c \<noteq> cert_obj (last ?v)" by auto
    with False assms(1) show ?thesis by (simp add: regtp_leave_udata [OF assms(1,2)])
  qed
qed

lemma regtp_target_marked:
  assumes "w_udata w (cert_obj c, regtp_key) = None"
    and "fst (get_regtp_ca_info e w c) = False"
    and "regtp_visited e w c = [c]"
    and "set_user_data_rc e c regtp_key = no_error"
  shows "w_udata (snd (snd (get_regtp_ca_info e w c))) (cert_obj c, regtp_key) = Some [NUL]"
  using assms(3,4) by (simp add: regtp_leave_udata [OF assms(1,2)])

lemma regtp_marker_read:
  "w_udata w (cert_obj m, regtp_key) = Some [NUL] \<Longrightarrow> get_regtp_ca_info e w m = (False, 0, w)"
  by (simp add: get_regtp_ca_info_def ksba_cert_get_user_data_def)

lemma regtp_no_marker_read:
  "w_udata w (cert_obj c, regtp_key) = None
   \<Longrightarrow> ksba_cert_get_user_data w c regtp_key 2 = (Err (GPG_ERR_SOURCE 9) GPG_ERR_NOT_FOUND, [])"
  by (simp add: ksba_cert_get_user_data_def)

text \<open>
  C7, what the code does. The walk of \<^verbatim>\<open>get_regtp_ca_info\<close> puts the certificate
  under test and at most 3 further certificates into its array of 4. When no marker
  is cached for the certificate under test and the call does not classify it as
  RegTP, line 1441 writes one marker, a user data value \<open>regtp_ca_chainlen\<close> of one
  byte 0, for the certificate the variable \<^verbatim>\<open>cert\<close> holds after the loop, which
  is the last entry of the array, and lines 1445-1446 then destroy every object the
  walk has made, with its user data. So when the walk has gone beyond the certificate
  under test, that certificate carries no marker after the call, a read of the
  marker fails again with \<open>GPG_ERR_NOT_FOUND\<close>, and the next call walks again. Only
  when the array holds the certificate under test alone is this certificate marked,
  and a call for a certificate that carries the marker returns at once.
\<close>

theorem regtp_marker_lost:
  "length (regtp_visited e w c) \<le> 4 \<and> regtp_visited e w c \<noteq> []
   \<and> hd (regtp_visited e w c) = c
   \<and> (w_udata w (cert_obj c, regtp_key) = None \<and> fst (get_regtp_ca_info e w c) = False \<longrightarrow>
        w_udata (snd (snd (get_regtp_ca_info e w c))) k
          = (if fst k \<in> cert_obj ` set (tl (regtp_visited e w c)) then None
             else if k = (cert_obj (last (regtp_visited e w c)), regtp_key)
                     \<and> set_user_data_rc e (last (regtp_visited e w c)) regtp_key = no_error
             then Some [NUL]
             else w_udata w k))
   \<and> (w_udata w (cert_obj c, regtp_key) = None \<and> fst (get_regtp_ca_info e w c) = False
        \<and> 1 < length (regtp_visited e w c) \<longrightarrow>
        w_udata (snd (snd (get_regtp_ca_info e w c))) (cert_obj c, regtp_key) = None
        \<and> ksba_cert_get_user_data (snd (snd (get_regtp_ca_info e w c))) c regtp_key 2
            = (Err (GPG_ERR_SOURCE 9) GPG_ERR_NOT_FOUND, []))
   \<and> (w_udata w (cert_obj c, regtp_key) = None \<and> fst (get_regtp_ca_info e w c) = False
        \<and> regtp_visited e w c = [c] \<and> set_user_data_rc e c regtp_key = no_error \<longrightarrow>
        w_udata (snd (snd (get_regtp_ca_info e w c))) (cert_obj c, regtp_key) = Some [NUL])
   \<and> (w_udata w (cert_obj m, regtp_key) = Some [NUL] \<longrightarrow>
        get_regtp_ca_info e w m = (False, 0, w))"
  using regtp_visited_facts [of e w c] regtp_leave_udata [of w c e k]
    regtp_target_unmarked [of w c e] regtp_target_marked [of w c e]
    regtp_marker_read [of w m e]
    regtp_no_marker_read [of "snd (snd (get_regtp_ca_info e w c))" c]
  by blast

text \<open>
  The walks of the sample: from \<open>X\<close>, in a world whose key database holds the root
  \<open>R\<close> only, and from \<open>R\<close> itself.
\<close>

lemma regtp_walk_X:
  assumes "w_store w = [sample_cert ''R'' ''R'']" and "w_eph w = []"
  shows "regtp_walk sample_env w no_error (non_ca_cert ''X'' ''R'') [non_ca_cert ''X'' ''R'']
     = (Minus1, (sample_cert ''R'' ''R'')\<lparr>cert_obj := w_next_obj w\<rparr>,
        [non_ca_cert ''X'' ''R'', (sample_cert ''R'' ''R'')\<lparr>cert_obj := w_next_obj w\<rparr>],
        w\<lparr>w_next_obj := Suc (w_next_obj w)\<rparr>)"
  using assms
  by (simp add: regtp_walk.simps gpgsm_walk_cert_chain_def keydb_new_def non_ca_cert_def
      hop_defs keydb_all_def sample_env_def sample_cert_def no_error_def gpg_error_def)

lemma regtp_walk_R:
  "regtp_walk sample_env w no_error (sample_cert ''R'' ''R'') [sample_cert ''R'' ''R'']
     = (Minus1, sample_cert ''R'' ''R'', [sample_cert ''R'' ''R''], w)"
  by (simp add: regtp_walk.simps gpgsm_walk_cert_chain_def keydb_new_def
      sample_env_def sample_cert_def)

lemma sample_not_qualified:
  "gpgsm_is_in_qualified_list sample_env c = (Err GPG_ERR_SOURCE_DEFAULT GPG_ERR_NOT_FOUND, [])"
  by (simp add: sample_env_def)

lemma sample_set_user_data:
  "ksba_cert_set_user_data sample_env w c key d
     = (no_error, w\<lparr>w_udata := (w_udata w)((cert_obj c, key) \<mapsto> d)\<rparr>)"
  by (simp add: sample_env_def ksba_cert_set_user_data_def)

lemma regtp_call_X:
  assumes "w_store w = [sample_cert ''R'' ''R'']" and "w_eph w = []"
    and "w_udata w (0, regtp_key) = None"
  shows "fst (get_regtp_ca_info sample_env w (non_ca_cert ''X'' ''R'')) = False"
    and "regtp_visited sample_env w (non_ca_cert ''X'' ''R'')
           = [non_ca_cert ''X'' ''R'', (sample_cert ''R'' ''R'')\<lparr>cert_obj := w_next_obj w\<rparr>]"
    and "w_store (snd (snd (get_regtp_ca_info sample_env w (non_ca_cert ''X'' ''R''))))
           = [sample_cert ''R'' ''R'']"
    and "w_eph (snd (snd (get_regtp_ca_info sample_env w (non_ca_cert ''X'' ''R'')))) = []"
    and "w_next_obj (snd (snd (get_regtp_ca_info sample_env w (non_ca_cert ''X'' ''R''))))
           = Suc (w_next_obj w)"
proof -
  from assms(3) have g: "ksba_cert_get_user_data w (non_ca_cert ''X'' ''R'') regtp_key 2
      = (Err (GPG_ERR_SOURCE 9) GPG_ERR_NOT_FOUND, [])"
    by (simp add: ksba_cert_get_user_data_def non_ca_cert_def sample_cert_def)
  show "fst (get_regtp_ca_info sample_env w (non_ca_cert ''X'' ''R'')) = False"
    by (simp add: get_regtp_ca_info_def g regtp_walk_X [OF assms(1,2)] regtp_leave_def
        sample_not_qualified)
  show "regtp_visited sample_env w (non_ca_cert ''X'' ''R'')
      = [non_ca_cert ''X'' ''R'', (sample_cert ''R'' ''R'')\<lparr>cert_obj := w_next_obj w\<rparr>]"
    by (simp add: regtp_visited_def regtp_walk_X [OF assms(1,2)])
  show "w_store (snd (snd (get_regtp_ca_info sample_env w (non_ca_cert ''X'' ''R''))))
      = [sample_cert ''R'' ''R'']"
    "w_eph (snd (snd (get_regtp_ca_info sample_env w (non_ca_cert ''X'' ''R'')))) = []"
    "w_next_obj (snd (snd (get_regtp_ca_info sample_env w (non_ca_cert ''X'' ''R''))))
      = Suc (w_next_obj w)"
    using assms(1,2)
    by (simp_all add: get_regtp_ca_info_def g regtp_walk_X [OF assms(1,2)] regtp_leave_def
        sample_not_qualified regtp_release_def ksba_cert_free_def sample_set_user_data)
qed

lemma regtp_call_R:
  assumes "w_udata w (0, regtp_key) = None"
  shows "fst (get_regtp_ca_info sample_env w (sample_cert ''R'' ''R'')) = False"
    and "regtp_visited sample_env w (sample_cert ''R'' ''R'') = [sample_cert ''R'' ''R'']"
proof -
  from assms have g: "ksba_cert_get_user_data w (sample_cert ''R'' ''R'') regtp_key 2
      = (Err (GPG_ERR_SOURCE 9) GPG_ERR_NOT_FOUND, [])"
    by (simp add: ksba_cert_get_user_data_def sample_cert_def)
  show "fst (get_regtp_ca_info sample_env w (sample_cert ''R'' ''R'')) = False"
    by (simp add: get_regtp_ca_info_def g regtp_walk_R regtp_leave_def sample_not_qualified)
  show "regtp_visited sample_env w (sample_cert ''R'' ''R'') = [sample_cert ''R'' ''R'']"
    by (simp add: regtp_visited_def regtp_walk_R)
qed

text \<open>
  The certificate \<open>X\<close>, which is not a CA, issued by the root \<open>R\<close> of the key
  database: the first call walks from \<open>X\<close> to \<open>R\<close>, and leaves \<open>X\<close> without a
  marker, the marker having gone with the object of \<open>R\<close>; the second call for
  \<open>X\<close> walks again and fetches \<open>R\<close> from the key database once more. A call for
  \<open>R\<close> itself marks \<open>R\<close>, and the next call for it returns at once.
\<close>

theorem regtp_marker_lost_witness:
  "w_udata regtp_world (cert_obj (non_ca_cert ''X'' ''R''), regtp_key) = None
   \<and> fst (get_regtp_ca_info sample_env regtp_world (non_ca_cert ''X'' ''R'')) = False
   \<and> regtp_visited sample_env regtp_world (non_ca_cert ''X'' ''R'')
       = [non_ca_cert ''X'' ''R'', (sample_cert ''R'' ''R'')\<lparr>cert_obj := 1\<rparr>]
   \<and> w_udata (snd (snd (get_regtp_ca_info sample_env regtp_world (non_ca_cert ''X'' ''R''))))
        (cert_obj (non_ca_cert ''X'' ''R''), regtp_key) = None
   \<and> w_udata (snd (snd (get_regtp_ca_info sample_env regtp_world (non_ca_cert ''X'' ''R''))))
        (1, regtp_key) = None
   \<and> ksba_cert_get_user_data
        (snd (snd (get_regtp_ca_info sample_env regtp_world (non_ca_cert ''X'' ''R''))))
        (non_ca_cert ''X'' ''R'') regtp_key 2
      = (Err (GPG_ERR_SOURCE 9) GPG_ERR_NOT_FOUND, [])
   \<and> regtp_visited sample_env
        (snd (snd (get_regtp_ca_info sample_env regtp_world (non_ca_cert ''X'' ''R''))))
        (non_ca_cert ''X'' ''R'')
      = [non_ca_cert ''X'' ''R'', (sample_cert ''R'' ''R'')\<lparr>cert_obj := 2\<rparr>]
   \<and> regtp_visited sample_env regtp_world (sample_cert ''R'' ''R'') = [sample_cert ''R'' ''R'']
   \<and> w_udata (snd (snd (get_regtp_ca_info sample_env regtp_world (sample_cert ''R'' ''R''))))
        (cert_obj (sample_cert ''R'' ''R''), regtp_key) = Some [NUL]
   \<and> get_regtp_ca_info sample_env
        (snd (snd (get_regtp_ca_info sample_env regtp_world (sample_cert ''R'' ''R''))))
        (sample_cert ''R'' ''R'')
      = (False, 0, snd (snd (get_regtp_ca_info sample_env regtp_world (sample_cert ''R'' ''R''))))"
proof -
  let ?X = "non_ca_cert ''X'' ''R''"
  let ?R = "sample_cert ''R'' ''R''"
  let ?w1 = "snd (snd (get_regtp_ca_info sample_env regtp_world ?X))"
  let ?w2 = "snd (snd (get_regtp_ca_info sample_env regtp_world ?R))"
  have x: "cert_obj ?X = 0" "cert_obj ?R = 0"
    by (simp_all add: non_ca_cert_def sample_cert_def)
  have w: "w_store regtp_world = [?R]" "w_eph regtp_world = []"
    "w_udata regtp_world (0, regtp_key) = None" "w_next_obj regtp_world = 1"
    by (simp_all add: regtp_world_def sample_world_def)
  have s: "\<And>m. set_user_data_rc sample_env m regtp_key = no_error"
    by (simp add: sample_env_def)
  note c = regtp_call_X [OF w(1,2,3)]
  from c(2) w(4) have v: "regtp_visited sample_env regtp_world ?X = [?X, ?R\<lparr>cert_obj := 1\<rparr>]"
    by simp
  note t = regtp_marker_lost [where e = sample_env and w = regtp_world and c = ?X]
  from t [where k = "(1, regtp_key)"] w(3) x c(1) v
  have a: "w_udata ?w1 (cert_obj ?X, regtp_key) = None"
    and b: "w_udata ?w1 (1, regtp_key) = None"
    and g: "ksba_cert_get_user_data ?w1 ?X regtp_key 2
      = (Err (GPG_ERR_SOURCE 9) GPG_ERR_NOT_FOUND, [])"
    by simp_all
  from a x have n: "w_udata ?w1 (0, regtp_key) = None" by simp
  from regtp_call_X(2) [OF c(3,4) n] c(5) w(4)
  have v2: "regtp_visited sample_env ?w1 ?X = [?X, ?R\<lparr>cert_obj := 2\<rparr>]"
    by simp
  note r = regtp_call_R [OF w(3)]
  from regtp_marker_lost [where e = sample_env and w = regtp_world and c = ?R] w(3) x r s
  have m: "w_udata ?w2 (cert_obj ?R, regtp_key) = Some [NUL]"
    by simp
  from regtp_marker_lost [where e = sample_env and w = ?w2 and m = ?R] m
  have l: "get_regtp_ca_info sample_env ?w2 ?R = (False, 0, ?w2)"
    by blast
  from w(3) x c(1) v a b g v2 r(2) m l show ?thesis by simp
qed

subsection \<open>What find\_up finds\<close>

lemma found_cert_set_ephemeral [simp]:
  "found_cert w (snd (keydb_set_ephemeral kh b)) = found_cert w kh"
  by (simp add: found_cert_def keydb_set_ephemeral_def)

lemma found_cert_get_cert:
  "keydb_get_cert w kh = Some (d, w1) \<Longrightarrow> found_cert w1 kh' = found_cert w kh'"
proof -
  assume "keydb_get_cert w kh = Some (d, w1)"
  from keydb_get_cert_stores(1,2) [OF this] have "keydb_all w1 = keydb_all w"
    by (simp add: keydb_all_def)
  then show ?thesis by (simp add: found_cert_def split: option.splits)
qed

lemma keydb_get_cert_is_found:
  "keydb_get_cert w kh = Some (d, w1)
   \<Longrightarrow> \<exists>f. found_cert w kh = Some f \<and> d = f\<lparr>cert_obj := w_next_obj w\<rparr>"
  by (auto simp: keydb_get_cert_def found_cert_def split: option.splits if_splits)

lemma keydb_search_finds:
  assumes "keydb_search P w kh = (no_error, kh')"
  shows "\<exists>d. found_cert w kh' = Some d \<and> P d"
proof -
  from keydb_search_found [OF assms] obtain i where
    i: "i < length (keydb_visible w kh)" "P (keydb_visible w kh ! i)"
       "kh' = kh\<lparr>kh_pos := Suc i, kh_found := Some i\<rparr>"
    by blast
  from i(1) have "i < length (keydb_all w)" and "keydb_all w ! i = keydb_visible w kh ! i"
    by (auto simp: keydb_visible_def keydb_all_def nth_append split: if_splits)
  with i show ?thesis by (simp add: found_cert_def)
qed

lemma search_subject_finds:
  "keydb_search_subject w kh issuer = (no_error, kh')
   \<Longrightarrow> \<exists>d. found_cert w kh' = Some d \<and> cert_subject d = Some issuer"
  unfolding keydb_search_subject_def by (rule keydb_search_finds)

lemma search_issuer_sn_finds:
  "keydb_search_issuer_sn w kh s sn = (no_error, kh')
   \<Longrightarrow> \<exists>d. found_cert w kh' = Some d \<and> cert_issuer d = Some s \<and> cert_serial d = sn"
  unfolding keydb_search_issuer_sn_def by (rule keydb_search_finds)

lemma search_by_keyid_loop_finds:
  "search_by_keyid_loop w kh issuer keyid = (no_error, kh', w')
   \<Longrightarrow> \<exists>d. found_cert w' kh' = Some d \<and> cert_subject d = Some issuer"
proof (induction w kh issuer keyid arbitrary: kh' w' rule: search_by_keyid_loop.induct)
  case (1 w kh issuer keyid)
  obtain rc1 kh1 where s: "keydb_search_subject w kh issuer = (rc1, kh1)" by force
  show ?case
  proof (cases "rc1 \<noteq> no_error")
    case True
    with s "1.prems" show ?thesis by (subst (asm) search_by_keyid_loop.simps) simp
  next
    case ok: False
    show ?thesis
    proof (cases "keydb_get_cert w kh1")
      case None
      with s ok "1.prems" show ?thesis by (subst (asm) search_by_keyid_loop.simps) simp
    next
      case (Some cw)
      obtain c w1 where cw: "cw = (c, w1)" by force
      obtain err subj where k: "cert_skid c = (err, subj)" by force
      show ?thesis
      proof (cases "err = no_error \<and> keyid = subj")
        case True
        with s ok Some cw k "1.prems" have e: "kh' = kh1" "w' = w1"
          by (subst (asm) search_by_keyid_loop.simps, simp)+
        from s ok search_subject_finds [of w kh issuer kh1]
        obtain d where "found_cert w kh1 = Some d" "cert_subject d = Some issuer" by auto
        with found_cert_get_cert [of w kh1 c w1 kh1] Some cw e show ?thesis by simp
      next
        case False
        with s ok Some cw k "1.prems"
        have "search_by_keyid_loop w1 kh1 issuer keyid = (no_error, kh', w')"
          by (subst (asm) search_by_keyid_loop.simps) auto
        from "1.IH" [OF s [symmetric] _ Some cw [symmetric] k [symmetric] False this] ok
        show ?thesis by simp
      qed
    qed
  qed
qed

lemma find_up_search_by_keyid_finds:
  "find_up_search_by_keyid w kh issuer keyid = (no_error, kh', w')
   \<Longrightarrow> \<exists>d. found_cert w' kh' = Some d \<and> cert_subject d = Some issuer"
  by (auto simp: find_up_search_by_keyid_def split: prod.splits if_splits
      dest: search_by_keyid_loop_finds)

lemma find_up_external_finds:
  "find_up_external e w kh issuer keyid = (no_error, kh', w')
   \<Longrightarrow> \<exists>d. found_cert w' kh' = Some d \<and> cert_subject d = Some issuer"
  by (auto simp: find_up_external_def split: prod.splits if_splits option.splits
      dest: find_up_search_by_keyid_finds search_subject_finds)

lemma find_up_issuer_sn_finds:
  "find_up_issuer_sn w kh s sn fn = (no_error, kh')
   \<Longrightarrow> \<exists>d. found_cert w kh' = Some d \<and> cert_issuer d = Some s \<and> cert_serial d = sn"
  by (auto simp: find_up_issuer_sn_def Let_def split: prod.splits if_splits
      dest: search_issuer_sn_finds)

lemma find_up_keyid_finds:
  "find_up_keyid w kh issuer keyid = (no_error, kh', w')
   \<Longrightarrow> \<exists>d. found_cert w' kh' = Some d \<and> cert_subject d = Some issuer"
  by (auto simp: find_up_keyid_def split: prod.splits if_splits
      dest: find_up_search_by_keyid_finds)

lemma find_up_aki_finds:
  "find_up_aki e w kh c issuer fn = (no_error, kh', w')
   \<Longrightarrow> \<exists>d. found_cert w' kh' = Some d \<and> issuer_candidate c issuer d"
  by (auto simp: find_up_aki_def issuer_candidate_def
      split: prod.splits if_splits option.splits
      dest: find_up_issuer_sn_finds find_up_keyid_finds find_up_external_finds)

lemma find_up_subject_finds:
  "find_up_subject w kh issuer fn rc = (no_error, kh') \<Longrightarrow> rc \<noteq> no_error
   \<Longrightarrow> \<exists>d. found_cert w kh' = Some d \<and> cert_subject d = Some issuer"
  by (auto simp: find_up_subject_def split: prod.splits if_splits
      dest: search_subject_finds)

lemma find_up_subject_kept:
  "find_up_subject w kh issuer fn no_error = (no_error, kh)"
  by (simp add: find_up_subject_def)

lemma find_up_finds:
  assumes "find_up e w kh c issuer fn = (no_error, kh', w')"
  shows "\<exists>d. found_cert w' kh' = Some d \<and> issuer_candidate c issuer d"
proof -
  obtain rc kh1 w1 where a: "find_up_aki e w kh c issuer fn = (rc, kh1, w1)"
    by (cases "find_up_aki e w kh c issuer fn") auto
  obtain rc1 kh2 where s: "find_up_subject w1 kh1 issuer fn rc = (rc1, kh2)" by force
  show ?thesis
  proof (cases "rc1 = Minus1 \<and> opt_auto_issuer_key_retrieve e \<and> \<not> fn")
    case True
    with a s assms have "find_up_external e w1 kh2 issuer None = (no_error, kh', w')"
      by (simp add: find_up_def)
    from find_up_external_finds [OF this] show ?thesis
      by (auto simp: issuer_candidate_def)
  next
    case False
    with a s assms have e: "rc1 = no_error" "kh' = kh2" "w' = w1"
      by (auto simp: find_up_def split: if_splits)
    show ?thesis
    proof (cases "rc = no_error")
      case True
      with a s e find_up_subject_kept [of w1 kh1 issuer fn] find_up_aki_finds [of e w kh c issuer fn kh1 w1]
      show ?thesis by auto
    next
      case False
      from s e have "find_up_subject w1 kh1 issuer fn rc = (no_error, kh2)" by simp
      from find_up_subject_finds [OF this False] e show ?thesis
        by (auto simp: issuer_candidate_def)
    qed
  qed
qed

lemma found_is_not_input:
  assumes f: "find_up e w kh c issuer fn = (no_error, kh', w')"
    and g: "keydb_get_cert w' kh' = Some (x, w'')"
    and n: "\<not> issuer_candidate c issuer c"
    and i: "cert_image x = cert_image c \<longrightarrow>
            cert_subject x = cert_subject c \<and> cert_issuer x = cert_issuer c
            \<and> cert_serial x = cert_serial c"
  shows "compare_certs c x = 1"
proof -
  from find_up_finds [OF f] obtain d where d: "found_cert w' kh' = Some d"
    and c: "issuer_candidate c issuer d"
    by blast
  from keydb_get_cert_is_found [OF g] d have "x = d\<lparr>cert_obj := w_next_obj w'\<rparr>" by simp
  with c have "issuer_candidate c issuer x"
    by (auto simp: issuer_candidate_def split: option.splits)
  with n i have "cert_image x \<noteq> cert_image c"
    by (auto simp: issuer_candidate_def split: option.splits)
  then show ?thesis by (auto simp: compare_certs_def split: option.splits)
qed

text \<open>
  C6, as the code has it. When \<^verbatim>\<open>find_up\<close> returns 0, the cursor is on a
  certificate of the key database whose subject DN is the issuer DN searched for, or
  whose issuer DN and serial number are the ones the authority key identifier of the
  input names. So the certificate then fetched differs from the input by image
  whenever the input is no such certificate itself, that is, its subject DN is not
  the issuer DN searched for and its authority key identifier does not name its own
  issuer DN and serial number (certificates with the same image having the same DNs
  and serial number).
\<close>

theorem find_up_candidate:
  "(find_up e w kh c issuer fn = (no_error, kh', w') \<longrightarrow>
      (\<exists>d. found_cert w' kh' = Some d \<and> issuer_candidate c issuer d))
   \<and> (find_up e w kh c issuer fn = (no_error, kh', w')
        \<and> keydb_get_cert w' kh' = Some (x, w'')
        \<and> \<not> issuer_candidate c issuer c
        \<and> (cert_image x = cert_image c \<longrightarrow>
             cert_subject x = cert_subject c \<and> cert_issuer x = cert_issuer c
             \<and> cert_serial x = cert_serial c) \<longrightarrow>
        compare_certs c x = 1)"
  using find_up_finds [of e w kh c issuer fn kh' w']
    found_is_not_input [of e w kh c issuer fn kh' w' x w'']
  by blast

lemmas find_up_defs =
  find_up_def find_up_aki_def find_up_subject_def find_up_issuer_sn_def
  keydb_search_subject_def keydb_search_issuer_sn_def keydb_search_def keydb_visible_def
  keydb_search_reset_def keydb_set_ephemeral_def keydb_get_cert_def keydb_all_def
  compare_certs_def cstr_def NUL_def

lemma sample_find_up:
  "find_up sample_env (sample_world [sample_cert ''A'' ''R'']) sample_kh
       (sample_cert ''L'' ''A'') ''A'' False
     = (no_error, \<lparr>kh_pos = 1, kh_found = Some 0, kh_ephemeral = False\<rparr>,
        sample_world [sample_cert ''A'' ''R''])"
  by (simp add: find_up_defs sample_env_def sample_world_def sample_cert_def sample_kh_def)

theorem find_up_candidate_witness:
  "find_up sample_env (sample_world [sample_cert ''A'' ''R'']) sample_kh
       (sample_cert ''L'' ''A'') ''A'' False
     = (no_error, \<lparr>kh_pos = 1, kh_found = Some 0, kh_ephemeral = False\<rparr>,
        sample_world [sample_cert ''A'' ''R''])
   \<and> keydb_get_cert (sample_world [sample_cert ''A'' ''R''])
        \<lparr>kh_pos = 1, kh_found = Some 0, kh_ephemeral = False\<rparr>
      = Some ((sample_cert ''A'' ''R'')\<lparr>cert_obj := 1\<rparr>,
              (sample_world [sample_cert ''A'' ''R''])\<lparr>w_next_obj := 2\<rparr>)
   \<and> \<not> issuer_candidate (sample_cert ''L'' ''A'') ''A'' (sample_cert ''L'' ''A'')
   \<and> issuer_candidate (sample_cert ''L'' ''A'') ''A'' (sample_cert ''A'' ''R'')
   \<and> compare_certs (sample_cert ''L'' ''A'') ((sample_cert ''A'' ''R'')\<lparr>cert_obj := 1\<rparr>) = 1"
proof -
  let ?w = "sample_world [sample_cert ''A'' ''R'']"
  let ?kh = "\<lparr>kh_pos = 1, kh_found = Some 0, kh_ephemeral = False\<rparr>"
  let ?L = "sample_cert ''L'' ''A''"
  let ?x = "(sample_cert ''A'' ''R'')\<lparr>cert_obj := 1\<rparr>"
  have g: "keydb_get_cert ?w ?kh = Some (?x, ?w\<lparr>w_next_obj := 2\<rparr>)"
    by (simp add: keydb_get_cert_def keydb_all_def sample_world_def)
  have n: "\<not> issuer_candidate ?L ''A'' ?L"
    by (simp add: issuer_candidate_def sample_cert_def)
  have i: "cert_image ?x \<noteq> cert_image ?L" by (simp add: sample_cert_def)
  have f: "found_cert ?w ?kh = Some (sample_cert ''A'' ''R'')"
    by (simp add: found_cert_def keydb_all_def sample_world_def)
  from find_up_candidate [of sample_env ?w sample_kh ?L "''A''" False ?kh ?w ?x
      "?w\<lparr>w_next_obj := 2\<rparr>"] sample_find_up g n i f
  have "issuer_candidate ?L ''A'' (sample_cert ''A'' ''R'') \<and> compare_certs ?L ?x = 1"
    by simp
  with sample_find_up g n show ?thesis by simp
qed

text \<open>
  C6 as stated fails. The key database holds a certificate that is not self-issued
  and whose authority key identifier names its own issuer DN and serial number:
  \<^verbatim>\<open>find_up\<close> for this certificate returns 0 with the cursor on the certificate
  itself, with and without \<^verbatim>\<open>find_next\<close>. The same happens for a self-issued
  certificate that is in the key database.
\<close>

theorem find_up_candidate_counterexample:
  "find_up sample_env (sample_world [self_aki_cert]) sample_kh self_aki_cert ''I'' False
     = (no_error, \<lparr>kh_pos = 1, kh_found = Some 0, kh_ephemeral = False\<rparr>,
        sample_world [self_aki_cert])
   \<and> find_up sample_env (sample_world [self_aki_cert]) sample_kh self_aki_cert ''I'' True
     = (no_error, \<lparr>kh_pos = 1, kh_found = Some 0, kh_ephemeral = False\<rparr>,
        sample_world [self_aki_cert])
   \<and> map_option (\<lambda>r. compare_certs self_aki_cert (fst r))
        (keydb_get_cert (sample_world [self_aki_cert])
           \<lparr>kh_pos = 1, kh_found = Some 0, kh_ephemeral = False\<rparr>) = Some 0
   \<and> find_up sample_env (sample_world [sample_cert ''R'' ''R'']) sample_kh
        (sample_cert ''R'' ''R'') ''R'' False
     = (no_error, \<lparr>kh_pos = 1, kh_found = Some 0, kh_ephemeral = False\<rparr>,
        sample_world [sample_cert ''R'' ''R''])
   \<and> map_option (\<lambda>r. compare_certs (sample_cert ''R'' ''R'') (fst r))
        (keydb_get_cert (sample_world [sample_cert ''R'' ''R''])
           \<lparr>kh_pos = 1, kh_found = Some 0, kh_ephemeral = False\<rparr>) = Some 0"
  by (simp add: find_up_defs self_aki_cert_def sample_env_def sample_world_def
      sample_cert_def sample_kh_def)

subsection \<open>The limit on the depth\<close>

lemma chain_dn_inject [simp]: "chain_dn i = chain_dn j \<longleftrightarrow> i = j"
proof
  assume "chain_dn i = chain_dn j"
  then have "length (chain_dn i) = length (chain_dn j)" by simp
  then show "i = j" by (simp add: chain_dn_def)
qed simp

lemma find_first:
  assumes "j < m" and "P j" and "\<And>i. i < j \<Longrightarrow> \<not> P i"
  shows "List.find P [0..<m] = Some j"
  using assms by (auto simp: find_Some_iff intro!: exI [of _ j])

lemma chain_search:
  assumes "k < n"
  shows "keydb_search_subject ((chain_world n)\<lparr>w_next_obj := m\<rparr>) sample_kh (chain_dn (Suc k))
     = (no_error, \<lparr>kh_pos = Suc (Suc k), kh_found = Some (Suc k), kh_ephemeral = False\<rparr>)"
proof -
  let ?P = "\<lambda>i. cert_subject (map (chain_cert n) [0..<Suc n] ! i) = Some (chain_dn (Suc k))"
  have "List.find ?P [0..<Suc n] = Some (Suc k)"
  proof (rule find_first)
    show "Suc k < Suc n" using assms by simp
    show "?P (Suc k)" using assms
      by (simp add: nth_map_upt chain_cert_def sample_cert_def del: upt_Suc)
    show "\<not> ?P i" if "i < Suc k" for i
      using that assms by (simp add: nth_map_upt chain_cert_def sample_cert_def del: upt_Suc)
  qed
  then show ?thesis
    by (simp add: keydb_search_subject_def keydb_search_def keydb_visible_def chain_world_def
        sample_world_def sample_kh_def del: upt_Suc)
qed

lemma chain_find_up:
  assumes "k < n"
  shows "find_up sample_env ((chain_world n)\<lparr>w_next_obj := m\<rparr>) sample_kh
           ((chain_cert n k)\<lparr>cert_obj := j\<rparr>) (chain_dn (Suc k)) False
     = (no_error, \<lparr>kh_pos = Suc (Suc k), kh_found = Some (Suc k), kh_ephemeral = False\<rparr>,
        (chain_world n)\<lparr>w_next_obj := m\<rparr>)"
  by (simp add: find_up_def find_up_aki_def find_up_subject_def chain_search [OF assms]
      chain_cert_def sample_cert_def no_error_def)

lemma chain_get_cert:
  assumes "k < n"
  shows "keydb_get_cert ((chain_world n)\<lparr>w_next_obj := m\<rparr>)
           \<lparr>kh_pos = Suc (Suc k), kh_found = Some (Suc k), kh_ephemeral = False\<rparr>
     = Some ((chain_cert n (Suc k))\<lparr>cert_obj := m\<rparr>, (chain_world n)\<lparr>w_next_obj := Suc m\<rparr>)"
  using assms
  by (simp add: keydb_get_cert_def keydb_all_def chain_world_def sample_world_def nth_map_upt
      nth_append del: upt_Suc)

lemma chain_node_checks:
  assumes "on_chain n k st"
  shows "\<exists>st1. node_checks sample_env st = Ok st1 \<and> on_chain n k st1"
  using assms
  by (simp add: on_chain_def node_checks_def check_validity_def unknown_criticals_def
      check_cert_policy_def chain_cert_def Let_def sample_defs)

lemma chain_hop:
  assumes "on_chain n k st" and "k < n" and "k < 50"
  shows "\<exists>st'. hop (Suc f) sample_env lm flags (chain_dn (Suc k)) st = Some (Continue st')
           \<and> on_chain n (Suc k) st'"
proof -
  from assms(1) have s: "vs_subject_cert st = (chain_cert n k)\<lparr>cert_obj := k\<rparr>"
    and d: "vs_depth st = int k" and kh: "vs_kh st = sample_kh"
    and w: "vs_world st = (chain_world n)\<lparr>w_next_obj := Suc k\<rparr>"
    and f: "\<not> vs_any_expired st" "\<not> vs_any_revoked st" "\<not> vs_any_no_crl st"
      "\<not> vs_any_crl_too_old st" "\<not> vs_any_no_policy_match st" "vs_is_qualified st = - 1"
    by (simp_all add: on_chain_def)
  have r: "keydb_search_reset sample_kh = sample_kh"
    by (simp add: keydb_search_reset_def sample_kh_def)
  have c: "cert_is_ca ((chain_cert n (Suc k))\<lparr>cert_obj := Suc k\<rparr>) = (no_error, True, - 1)"
    by (simp add: chain_cert_def sample_cert_def)
  show ?thesis
    using assms(3)
    by (simp add: hop_def Let_def maxdepth_def s d kh w f r c
        chain_find_up [OF assms(2), unfolded sample_env_def sample_kh_def]
        chain_get_cert [OF assms(2)] hop_issuer_def issuer_allowed_def allowed_ca_def
        edge_revocation_def is_cert_still_valid_def rev_flags_def set_rev_def on_chain_def
        sample_env_def keydb_search_reset_def sample_kh_def)
qed

lemma chain_round:
  assumes "on_chain n k st" and "k < n" and "k < 50"
  shows "\<exists>st'. chain_step (Suc f) sample_env lm flags c st = Some (Continue st')
           \<and> on_chain n (Suc k) st'"
proof -
  from chain_node_checks [OF assms(1)] obtain st1
    where n: "node_checks sample_env st = Ok st1" and o: "on_chain n k st1"
    by blast
  from assms(1,2) have i: "cert_issuer (vs_subject_cert st) = Some (chain_dn (Suc k))"
    and s: "cert_subject (vs_subject_cert st) = Some (chain_dn k)"
    by (simp_all add: on_chain_def chain_cert_def sample_cert_def)
  from chain_hop [OF o assms(2,3)] show ?thesis
    by (simp add: chain_step_def i s n)
qed

lemma chain_start:
  "on_chain n 0 (initial_vstate (chain_world n) sample_kh (chain_cert n 0))"
  by (simp add: on_chain_def initial_vstate_def chain_world_def chain_cert_def
      sample_world_def sample_cert_def)

lemma chain_rounds:
  assumes "k \<le> n" and "k \<le> 50"
  shows "\<exists>st. state_after k (Suc f) sample_env lm flags (chain_cert n 0)
                 (initial_vstate (chain_world n) sample_kh (chain_cert n 0)) = Some st
           \<and> on_chain n k st"
  using assms
proof (induction k)
  case 0
  show ?case by (simp add: chain_start)
next
  case (Suc k)
  then obtain st where s: "state_after k (Suc f) sample_env lm flags (chain_cert n 0)
      (initial_vstate (chain_world n) sample_kh (chain_cert n 0)) = Some st"
    and o: "on_chain n k st"
    by auto
  from Suc.prems have "k < n" "k < 50" by simp_all
  from chain_round [OF o this] obtain st'
    where c: "chain_step (Suc f) sample_env lm flags (chain_cert n 0) st = Some (Continue st')"
      and o': "on_chain n (Suc k) st'"
    by blast
  from s c have "state_after (Suc k) (Suc f) sample_env lm flags (chain_cert n 0)
      (initial_vstate (chain_world n) sample_kh (chain_cert n 0)) = Some st'"
    by (subst state_after_snoc) blast
  with o' show ?case by blast
qed

lemma chain_root:
  assumes "on_chain n n st"
  shows "\<exists>st'. chain_step fuel sample_env lm flags c st = Some (Exit ByBreak no_error st')
           \<and> chain_verdict no_error st' = no_error"
proof -
  from chain_node_checks [OF assms] obtain st1
    where n: "node_checks sample_env st = Ok st1" and o: "on_chain n n st1"
    by blast
  from assms have i: "cert_issuer (vs_subject_cert st) = Some (chain_dn n)"
    and s: "cert_subject (vs_subject_cert st) = Some (chain_dn n)"
    by (simp_all add: on_chain_def chain_cert_def sample_cert_def)
  from o have s1: "vs_subject_cert st1 = (chain_cert n n)\<lparr>cert_obj := n\<rparr>"
    and f: "\<not> vs_any_expired st1" "\<not> vs_any_revoked st1" "\<not> vs_any_no_crl st1"
      "\<not> vs_any_crl_too_old st1" "\<not> vs_any_no_policy_match st1" "vs_is_qualified st1 = - 1"
    by (simp_all add: on_chain_def)
  have c: "cert_is_ca ((chain_cert n n)\<lparr>cert_obj := n\<rparr>) = (no_error, True, - 1)"
    by (simp add: chain_cert_def sample_cert_def)
  show ?thesis
    by (simp add: chain_step_def i s n [unfolded sample_env_def] s1 f c root_branch_def
        allowed_ca_def
        root_qualified_def root_trust_def root_revocation_def is_cert_still_valid_def
        rev_flags_def set_rev_def chain_verdict_def Let_def sample_env_def
        split: prod.splits)
qed

lemma sample_leave:
  "fst (validate_leave sample_env w c r no_error q x) = no_error"
  by (simp add: validate_leave_def ksba_cert_set_user_data_def sample_env_def)

lemma sample_keydb_new: "keydb_new sample_env = Some sample_kh"
  by (simp add: keydb_new_def sample_env_def sample_kh_def)

lemma sample_validates: "\<not> (opt_no_chain_validation sample_env \<and> \<not> lm)"
  by (simp add: sample_env_def)

lemma chain_accepted:
  assumes "n \<le> 50"
  shows "map_option fst (gpgsm_validate_chain (Suc f) sample_env (chain_world n)
                           (chain_cert n 0) r lm flags) = Some no_error"
proof -
  from chain_rounds [OF order_refl assms] obtain st
    where s: "state_after n (Suc f) sample_env lm flags (chain_cert n 0)
                (initial_vstate (chain_world n) sample_kh (chain_cert n 0)) = Some st"
      and o: "on_chain n n st"
    by blast
  from chain_root [OF o] obtain st'
    where c: "chain_step (Suc f) sample_env lm flags (chain_cert n 0) st
                = Some (Exit ByBreak no_error st')"
      and v: "chain_verdict no_error st' = no_error"
    by blast
  from state_after_loop [OF s] chain_loop_exit [OF c]
  have "chain_loop (Suc f) sample_env lm flags (chain_cert n 0)
          (initial_vstate (chain_world n) sample_kh (chain_cert n 0))
        = Some (ByBreak, no_error, st')"
    by simp
  from validate_chain_unfold [OF sample_keydb_new sample_validates this] v
  show ?thesis by (simp add: sample_leave)
qed

lemma depth_exceeded:
  assumes sa: "state_after k fuel e lm flags c (initial_vstate w kh c) = Some st"
    and k: "int k = maxdepth"
    and i: "cert_issuer (vs_subject_cert st) = Some issuer"
    and s: "cert_subject (vs_subject_cert st) \<noteq> Some issuer"
    and n: "node_ok e st"
  shows "leave_rc (chain_step fuel e lm flags c st) = Some (gpg_error GPG_ERR_BAD_CERT_CHAIN)"
proof -
  from n obtain st1 where n1: "node_checks e st = Ok st1"
    by (auto simp: node_ok_def split: flow.splits)
  from state_after_depth [OF sa] k have "vs_depth st = maxdepth"
    by (simp add: initial_vstate_def)
  with node_checks_depth [OF n1] have "vs_depth st1 = maxdepth" by simp
  then show ?thesis
    by (simp add: chain_step_def i s n1 hop_def Let_def leave_rc_def)
qed

lemma chain_too_long:
  assumes "50 < n"
  shows "map_option fst (gpgsm_validate_chain (Suc f) sample_env (chain_world n)
                           (chain_cert n 0) r lm flags)
         = Some (gpg_error GPG_ERR_BAD_CERT_CHAIN)"
proof -
  from assms have "50 \<le> n" by simp
  from chain_rounds [OF this order_refl] obtain st
    where s: "state_after 50 (Suc f) sample_env lm flags (chain_cert n 0)
                (initial_vstate (chain_world n) sample_kh (chain_cert n 0)) = Some st"
      and o: "on_chain n 50 st"
    by blast
  from o assms have i: "cert_issuer (vs_subject_cert st) = Some (chain_dn 51)"
    and c: "cert_subject (vs_subject_cert st) \<noteq> Some (chain_dn 51)"
    by (simp_all add: on_chain_def chain_cert_def sample_cert_def)
  from chain_node_checks [OF o] have n: "node_ok sample_env st"
    by (auto simp: node_ok_def)
  have "int 50 = maxdepth" by (simp add: maxdepth_def)
  from leave_is_returned [OF sample_keydb_new sample_validates s
      depth_exceeded [OF s this i c n]]
  show ?thesis .
qed

text \<open>
  C2. The depth is 0 when the walk starts at the leaf and grows by one with every
  round that goes on to an issuer, so round \<open>k\<close> starts at depth \<open>k\<close>, which is
  at most \<^verbatim>\<open>maxdepth\<close> = 50. A round that starts at depth 50 with a certificate
  that is not self-issued and has passed the checks of lines 777-845 increments the
  depth to 51 and makes the function return \<^verbatim>\<open>GPG_ERR_BAD_CERT_CHAIN\<close>, whatever
  the key database holds. The length of a chain is read as the number of its
  certificates that are not the root, which is the depth the walk reaches at the root:
  for the sample chain with \<open>n\<close> certificates below a trusted root, every check
  passing, the function returns 0 for every \<open>n\<close> up to \<^verbatim>\<open>maxdepth\<close>, and
  \<^verbatim>\<open>GPG_ERR_BAD_CERT_CHAIN\<close> for every longer one.
\<close>

theorem depth_limit:
  "vs_depth (initial_vstate w kh c) = 0
   \<and> (state_after k fuel e lm flags c (initial_vstate w kh c) = Some st \<longrightarrow>
        vs_depth st = int k \<and> vs_depth st \<le> maxdepth)
   \<and> (keydb_new e = Some kh \<and> \<not> (opt_no_chain_validation e \<and> \<not> lm)
        \<and> state_after k fuel e lm flags c (initial_vstate w kh c) = Some st
        \<and> int k = maxdepth
        \<and> cert_issuer (vs_subject_cert st) = Some issuer
        \<and> cert_subject (vs_subject_cert st) \<noteq> Some issuer
        \<and> node_ok e st \<longrightarrow>
        map_option fst (gpgsm_validate_chain fuel e w c r lm flags)
          = Some (gpg_error GPG_ERR_BAD_CERT_CHAIN))
   \<and> (int n \<le> maxdepth \<longrightarrow>
        map_option fst (gpgsm_validate_chain (Suc f) sample_env (chain_world n)
                          (chain_cert n 0) r lm flags) = Some no_error)
   \<and> (maxdepth < int n \<longrightarrow>
        map_option fst (gpgsm_validate_chain (Suc f) sample_env (chain_world n)
                          (chain_cert n 0) r lm flags)
          = Some (gpg_error GPG_ERR_BAD_CERT_CHAIN))"
proof (intro conjI impI)
  show "vs_depth (initial_vstate w kh c) = 0" by (simp add: initial_vstate_def)
next
  assume "state_after k fuel e lm flags c (initial_vstate w kh c) = Some st"
  from state_after_depth [OF this]
  show "vs_depth st = int k" and "vs_depth st \<le> maxdepth"
    by (auto simp: initial_vstate_def maxdepth_def)
next
  assume a: "keydb_new e = Some kh \<and> \<not> (opt_no_chain_validation e \<and> \<not> lm)
        \<and> state_after k fuel e lm flags c (initial_vstate w kh c) = Some st
        \<and> int k = maxdepth
        \<and> cert_issuer (vs_subject_cert st) = Some issuer
        \<and> cert_subject (vs_subject_cert st) \<noteq> Some issuer
        \<and> node_ok e st"
  then have "leave_rc (chain_step fuel e lm flags c st)
      = Some (gpg_error GPG_ERR_BAD_CERT_CHAIN)"
    using depth_exceeded by blast
  with a leave_is_returned
  show "map_option fst (gpgsm_validate_chain fuel e w c r lm flags)
      = Some (gpg_error GPG_ERR_BAD_CERT_CHAIN)"
    by blast
next
  assume "int n \<le> maxdepth"
  then have "n \<le> 50" by (simp add: maxdepth_def)
  then show "map_option fst (gpgsm_validate_chain (Suc f) sample_env (chain_world n)
      (chain_cert n 0) r lm flags) = Some no_error"
    by (rule chain_accepted)
next
  assume "maxdepth < int n"
  then have "50 < n" by (simp add: maxdepth_def)
  then show "map_option fst (gpgsm_validate_chain (Suc f) sample_env (chain_world n)
      (chain_cert n 0) r lm flags) = Some (gpg_error GPG_ERR_BAD_CERT_CHAIN)"
    by (rule chain_too_long)
qed

text \<open>
  The sample chains with 50 and with 51 certificates below the root: the first is
  accepted, the walk along the second starts its round 50 at depth 50 and fails there.
\<close>

theorem depth_limit_witness:
  "map_option vs_depth
     (state_after 50 1 sample_env False 0 (chain_cert 51 0)
        (initial_vstate (chain_world 51) sample_kh (chain_cert 51 0))) = Some 50
   \<and> map_option (\<lambda>st. cert_issuer (vs_subject_cert st) = Some (chain_dn 51)
                     \<and> cert_subject (vs_subject_cert st) \<noteq> Some (chain_dn 51)
                     \<and> node_ok sample_env st)
       (state_after 50 1 sample_env False 0 (chain_cert 51 0)
          (initial_vstate (chain_world 51) sample_kh (chain_cert 51 0))) = Some True
   \<and> map_option fst (gpgsm_validate_chain 1 sample_env (chain_world 50) (chain_cert 50 0)
                       False False 0) = Some no_error
   \<and> map_option fst (gpgsm_validate_chain 1 sample_env (chain_world 51) (chain_cert 51 0)
                       False False 0) = Some (gpg_error GPG_ERR_BAD_CERT_CHAIN)"
proof -
  have "(50::nat) \<le> 51" by simp
  from chain_rounds [OF this order_refl, where f = 0 and lm = False and flags = 0] obtain st
    where s: "state_after 50 1 sample_env False 0 (chain_cert 51 0)
                (initial_vstate (chain_world 51) sample_kh (chain_cert 51 0)) = Some st"
      and o: "on_chain 51 50 st"
    by auto
  from o have i: "cert_issuer (vs_subject_cert st) = Some (chain_dn 51)"
    and c: "cert_subject (vs_subject_cert st) \<noteq> Some (chain_dn 51)"
    by (simp_all add: on_chain_def chain_cert_def sample_cert_def)
  from chain_node_checks [OF o] have n: "node_ok sample_env st"
    by (auto simp: node_ok_def)
  have m: "int 50 = maxdepth" "int 50 \<le> maxdepth" "maxdepth < int 51"
    by (simp_all add: maxdepth_def)
  have v: "\<not> opt_no_chain_validation sample_env" by (simp add: sample_env_def)
  note t = depth_limit [where w = "chain_world 51" and kh = sample_kh
      and c = "chain_cert 51 0" and k = 50 and fuel = 1 and e = sample_env and lm = False
      and flags = 0 and st = st and issuer = "chain_dn 51" and r = False and f = 0]
  from t [where n = 50] s i c n m sample_keydb_new v
  have "vs_depth st = 50"
    and "map_option fst (gpgsm_validate_chain 1 sample_env (chain_world 51) (chain_cert 51 0)
           False False 0) = Some (gpg_error GPG_ERR_BAD_CERT_CHAIN)"
    by simp_all
  moreover from t [where n = 50] m
  have "map_option fst (gpgsm_validate_chain 1 sample_env (chain_world 50) (chain_cert 50 0)
           False False 0) = Some no_error"
    by simp
  ultimately show ?thesis using s i c n by simp
qed

end
